theory Spec2Isabelle
  imports Complex_Main "HOL-Library.Word" "HOL-Library.Sublist"
begin

section \<open>JavaScript strings\<close>

text \<open>
  Text is modelled as \<^typ>\<open>string\<close>: a list of code units below 256 (ASCII and Latin-1).
  Code units above U+00FF are outside the model; there, lower-casing can even produce
  ASCII letters (U+212A gives \<^verbatim>\<open>k\<close>, U+0130 gives \<^verbatim>\<open>i\<close> followed by U+0307), so what is
  stated about counts of letters is stated on the lower-cased text, as the code computes
  it. The helpers below follow the built-in string methods that \<^verbatim>\<open>src/server.js\<close> calls.
\<close>

definition code :: "char \<Rightarrow> nat" where
  "code c = of_char c"

text \<open>The character class \<^verbatim>\<open>[a-z]\<close>.\<close>

definition isLowerAZ :: "char \<Rightarrow> bool" where
  "isLowerAZ c = (97 \<le> code c \<and> code c \<le> 122)"

text \<open>The character class \<^verbatim>\<open>[A-Za-z]\<close>.\<close>

definition isAZaz :: "char \<Rightarrow> bool" where
  "isAZaz c = ((65 \<le> code c \<and> code c \<le> 90) \<or> (97 \<le> code c \<and> code c \<le> 122))"

text \<open>
  White space as \<^verbatim>\<open>String.prototype.trim\<close> sees it, below 256: TAB, LF, VT, FF, CR,
  SPACE and NBSP.
\<close>

definition isWs :: "char \<Rightarrow> bool" where
  "isWs c = ((9 \<le> code c \<and> code c \<le> 13) \<or> code c = 32 \<or> code c = 160)"

definition trim :: "string \<Rightarrow> string" where
  "trim s = rev (dropWhile isWs (rev (dropWhile isWs s)))"

text \<open>
  \<^verbatim>\<open>toLowerCase\<close> on code units below 256: \<^verbatim>\<open>A-Z\<close> and the Latin-1 capitals
  U+00C0..U+00DE (U+00D7, the multiplication sign, apart) move up by 32.
\<close>

definition lowerChar :: "char \<Rightarrow> char" where
  "lowerChar c =
     (if (65 \<le> code c \<and> code c \<le> 90) \<or> (192 \<le> code c \<and> code c \<le> 222 \<and> code c \<noteq> 215)
      then char_of (code c + 32) else c)"

definition toLowerCase :: "string \<Rightarrow> string" where
  "toLowerCase s = map lowerChar s"

text \<open>\<^verbatim>\<open>s.startsWith(p)\<close>.\<close>

fun startsWith :: "string \<Rightarrow> string \<Rightarrow> bool" where
  "startsWith s [] = True"
| "startsWith [] (p # ps) = False"
| "startsWith (c # cs) (p # ps) = (c = p \<and> startsWith cs ps)"

text \<open>\<^verbatim>\<open>s.includes(k)\<close>: the key occurs at some position of the text.\<close>

fun includesStr :: "string \<Rightarrow> string \<Rightarrow> bool" where
  "includesStr [] k = (k = [])"
| "includesStr (c # cs) k = (startsWith (c # cs) k \<or> includesStr cs k)"

text \<open>
  \<^verbatim>\<open>s.split(",")\<close>: the pieces between commas; the empty string splits into one empty
  piece.
\<close>

fun splitComma :: "string \<Rightarrow> string list" where
  "splitComma [] = [[]]"
| "splitComma (c # cs) =
     (if c = CHR '','' then [] # splitComma cs
      else (case splitComma cs of
              [] \<Rightarrow> [[c]]
            | p # ps \<Rightarrow> (c # p) # ps))"

text \<open>\<^verbatim>\<open>parts.join(", ")\<close>.\<close>

fun joinCommaSp :: "string list \<Rightarrow> string" where
  "joinCommaSp [] = []"
| "joinCommaSp [p] = p"
| "joinCommaSp (p # q # ps) = p @ '', '' @ joinCommaSp (q # ps)"

text \<open>\<^verbatim>\<open>safeStr(v)\<close> on a string: \<^verbatim>\<open>(v ?? "").toString().trim()\<close>.\<close>

definition safeStr :: "string \<Rightarrow> string" where
  "safeStr v = trim v"

section \<open>Document classifier\<close>

datatype DocType = RESUME | NON_RESUME

definition resumeStrong :: "string list" where
  "resumeStrong =
     [''professional summary'', ''work experience'', ''employment history'', ''experience'',
      ''education'', ''skills'', ''certifications'', ''certification'', ''projects'',
      ''objective'', ''curriculum vitae'', ''resume'', ''linkedin'']"

definition resumeWeak :: "string list" where
  "resumeWeak =
     [''responsibilities'', ''achievements'', ''accomplishments'', ''references'',
      ''technical skills'', ''core competencies'', ''profile'', ''summary'', ''high school'',
      ''university'', ''college'', ''bachelor'', ''diploma'']"

definition nonResumeStrong :: "string list" where
  "nonResumeStrong =
     [''invoice'', ''amount due'', ''subtotal'', ''total due'', ''payment'', ''bill to'',
      ''ship to'', ''purchase order'', ''po number'', ''statement of account'',
      ''terms and conditions'']"

text \<open>\<^verbatim>\<open>keys.some((k) => text.includes(k))\<close>.\<close>

definition hasAny :: "string \<Rightarrow> string list \<Rightarrow> bool" where
  "hasAny text keys = list_ex (\<lambda>k. includesStr text k) keys"

text \<open>\<^verbatim>\<open>keys.reduce((n, k) => (text.includes(k) ? n + 1 : n), 0)\<close>.\<close>

definition countAny :: "string \<Rightarrow> string list \<Rightarrow> nat" where
  "countAny text keys = foldl (\<lambda>n k. if includesStr text k then n + 1 else n) 0 keys"

definition classifyDocTypeFromText :: "string \<Rightarrow> DocType" where
  "classifyDocTypeFromText textRaw =
     (let text = toLowerCase textRaw;
          letters = length (filter isLowerAZ text)
      in if letters < 80 then NON_RESUME
         else
           (let resumeScore = countAny text resumeStrong * 3 + countAny text resumeWeak;
                nonResumeScore = countAny text nonResumeStrong * 3
            in if hasAny text resumeStrong \<and> nonResumeScore < resumeScore then RESUME
               else if resumeScore \<ge> 3 \<and> nonResumeScore \<le> resumeScore then RESUME
               else if nonResumeScore \<ge> 3 \<and> nonResumeScore > resumeScore then NON_RESUME
               else NON_RESUME))"

text \<open>
  The decision rule as the specification words it: rules (a) to (d), in order, over the
  lower-cased text. An indicator is present when it occurs somewhere in the text; each
  score counts the indicators present, strong ones three times.
\<close>

definition occursIn :: "string \<Rightarrow> string \<Rightarrow> bool" where
  "occursIn k t = (\<exists>p s. t = p @ k @ s)"

definition indicatorsPresent :: "string list \<Rightarrow> string \<Rightarrow> nat" where
  "indicatorsPresent ks t = card {k \<in> set ks. occursIn k t}"

definition decisionRule :: "string \<Rightarrow> DocType" where
  "decisionRule text =
     (let resumeScore = 3 * indicatorsPresent resumeStrong text + indicatorsPresent resumeWeak text;
          nonResumeScore = 3 * indicatorsPresent nonResumeStrong text
      in if (\<exists>k \<in> set resumeStrong. occursIn k text) \<and> nonResumeScore < resumeScore
           then RESUME
         else if 3 \<le> resumeScore \<and> nonResumeScore \<le> resumeScore then RESUME
         else if 3 \<le> nonResumeScore \<and> resumeScore < nonResumeScore then NON_RESUME
         else NON_RESUME)"

text \<open>
  The alphabetic characters below 256: the ASCII letters and the letters of Latin-1
  (U+00AA, U+00B5, U+00BA, U+00C0..U+00D6, U+00D8..U+00F6, U+00F8..U+00FF).
\<close>

definition isAlphabetic :: "char \<Rightarrow> bool" where
  "isAlphabetic c =
     (isAZaz c \<or> code c = 170 \<or> code c = 181 \<or> code c = 186
      \<or> (192 \<le> code c \<and> code c \<le> 214) \<or> (216 \<le> code c \<and> code c \<le> 246)
      \<or> 248 \<le> code c)"

definition alphabeticCount :: "string \<Rightarrow> nat" where
  "alphabeticCount t = length (filter isAlphabetic t)"

text \<open>
  The classifier of the specification: fewer than 80 alphabetic characters give
  \<open>NON_RESUME\<close>, otherwise the decision rule applies.
\<close>

definition spec_classify :: "string \<Rightarrow> DocType" where
  "spec_classify t =
     (if alphabeticCount t < 80 then NON_RESUME else decisionRule (toLowerCase t))"

text \<open>
  The same classifier when the characters counted are those of the class \<^verbatim>\<open>[a-z]\<close> in the
  lower-cased text.
\<close>

definition lowerLetterCount :: "string \<Rightarrow> nat" where
  "lowerLetterCount t = length (filter isLowerAZ (toLowerCase t))"

definition spec_classify_az :: "string \<Rightarrow> DocType" where
  "spec_classify_az t =
     (if lowerLetterCount t < 80 then NON_RESUME else decisionRule (toLowerCase t))"

section \<open>Text extraction\<close>

text \<open>A thrown JavaScript error, with its message.\<close>

datatype exn = Exn string

type_synonym bytes = "8 word list"

text \<open>
  The library calls of the extractor, taken as parameters: the two \<^verbatim>\<open>Buffer.toString\<close>
  decoders (read together with the \<^verbatim>\<open>replace(/^\uFEFF/, "")\<close> that follows them, since
  U+FEFF is not a code unit of the model), \<^verbatim>\<open>pdfParse(buf)\<close> and
  \<^verbatim>\<open>mammoth.extractRawText\<close>. A parser either throws or returns an object whose text
  field may be missing (\<open>None\<close>). \<^verbatim>\<open>sha256Hex\<close> is the digest of \<^verbatim>\<open>crypto\<close>.
\<close>

record Libs =
  utf8ToString :: "bytes \<Rightarrow> string"
  utf16leToString :: "bytes \<Rightarrow> string"
  pdfParse :: "bytes \<Rightarrow> exn + string option"
  mammothExtractRawText :: "bytes \<Rightarrow> exn + string option"
  sha256Hex :: "bytes \<Rightarrow> string"

text \<open>\<^verbatim>\<open>try { body } catch (e) { handler }\<close> on a computation that returns or throws.\<close>

definition tryCatch :: "exn + 'a \<Rightarrow> (exn \<Rightarrow> exn + 'a) \<Rightarrow> exn + 'a" where
  "tryCatch body handler = (case body of Inl e \<Rightarrow> handler e | Inr v \<Rightarrow> Inr v)"

text \<open>\<^verbatim>\<open>s.endsWith(suf)\<close>.\<close>

definition endsWith :: "string \<Rightarrow> string \<Rightarrow> bool" where
  "endsWith s suf = startsWith (rev s) (rev suf)"

definition decodeTextSmartBuf :: "Libs \<Rightarrow> bytes \<Rightarrow> string" where
  "decodeTextSmartBuf L buf =
     (if length buf \<ge> 2 \<and> buf ! 0 = 0xff \<and> buf ! 1 = 0xfe then utf16leToString L buf
      else if length buf \<ge> 3 \<and> buf ! 0 = 0xef \<and> buf ! 1 = 0xbb \<and> buf ! 2 = 0xbf
        then utf8ToString L buf
      else utf8ToString L buf)"

text \<open>
  \<^verbatim>\<open>looksGarbledText\<close>. The source divides two doubles and compares with \<^verbatim>\<open>0.05\<close>; the
  model divides reals. The sample has at most 2000 characters, where the two comparisons
  agree.
\<close>

definition looksGarbledText :: "string \<Rightarrow> bool" where
  "looksGarbledText s =
     (let sample = take 2000 s;
          trimmed = trim sample
      in if trimmed = [] then True
         else
           (let letters = length (filter isAZaz trimmed);
                ratio = real letters / real (max (length trimmed) 1)
            in ratio < 5 / 100))"

text \<open>\<^verbatim>\<open>s.replace(/\u0000/g, "")\<close>.\<close>

definition stripNul :: "string \<Rightarrow> string" where
  "stripNul s = filter (\<lambda>c. c \<noteq> CHR 0x00) s"

text \<open>\<^verbatim>\<open>v || ""\<close> on an optional string.\<close>

definition orEmpty :: "string option \<Rightarrow> string" where
  "orEmpty v = (case v of None \<Rightarrow> [] | Some s \<Rightarrow> s)"

definition extractTextFromBuffer :: "Libs \<Rightarrow> string \<Rightarrow> bytes \<Rightarrow> exn + string" where
  "extractTextFromBuffer L filename buf =
     (let nameLower = toLowerCase filename
      in tryCatch
           (if endsWith nameLower ''.txt'' then
              Inr (stripNul (safeStr (decodeTextSmartBuf L buf)))
            else if endsWith nameLower ''.pdf'' then
              tryCatch
                (case pdfParse L buf of
                   Inl e \<Rightarrow> Inl e
                 | Inr parsed \<Rightarrow>
                     (let text = safeStr (orEmpty parsed)
                      in if looksGarbledText text then Inr [] else Inr text))
                (\<lambda>e. Inr [])
            else if endsWith nameLower ''.docx'' then
              tryCatch
                (case mammothExtractRawText L buf of
                   Inl e \<Rightarrow> Inl e
                 | Inr result \<Rightarrow> Inr (safeStr (orEmpty result)))
                (\<lambda>e. Inr [])
            else Inr (stripNul (safeStr (decodeTextSmartBuf L buf))))
           (\<lambda>e. Inr []))"

section \<open>The world outside the process\<close>

text \<open>
  One row of a tenant's tally sheet, columns A to H: date, count, notes, customer id,
  latest storage key, file link, idempotency tokens (comma separated) and last score.
  Column B holds the number the engine wrote; a blank cell reads as \<open>0\<close>, as
  \<^verbatim>\<open>Number(cell || 0)\<close> gives. Scores are integers here.
\<close>

record LedgerRow =
  colA :: string
  colB :: int
  colC :: string
  colD :: string
  colE :: string
  colF :: string
  colG :: string
  colH :: "int option"

definition blankRow :: LedgerRow where
  "blankRow = \<lparr>colA = [], colB = 0, colC = [], colD = [], colE = [], colF = [], colG = [],
                colH = None\<rparr>"

text \<open>A single-cell \<^verbatim>\<open>values.update\<close>: the column and the value written.\<close>

datatype CellWrite = WB int | WC string | WD string | WE string | WF string | WG string | WH int

text \<open>A write request sent to the ledger store: sheet id, then the row number or the row.\<close>

datatype Write = Update string int CellWrite | Append string LedgerRow

text \<open>
  The scorer's answer, or the tagged outcome the pipeline builds itself: the fields the
  pipeline reads. \<open>error = []\<close> stands for an absent \<^verbatim>\<open>error\<close> field, \<open>score = None\<close> for a
  score that \<^verbatim>\<open>Number.isFinite\<close> rejects.
\<close>

record Ai =
  skipped :: bool
  reason :: string
  error :: string
  score :: "int option"

record CustomerRow =
  customerId :: string
  companyName :: string
  adminEmail :: string
  intakeEmail :: string
  status :: string
  tallySheetId :: string

datatype MailKind = Receipt | Scored

record Mail =
  mailTo :: string
  mailKind :: MailKind

record AuditRecord =
  auditToEmail :: string
  auditCustomerId :: string
  auditMatchFound :: bool
  auditBillingStatus :: string
  auditBlockedReason :: "string option"
  auditDocType :: DocType
  auditExtractedChars :: nat
  auditAi :: Ai

text \<open>
  The remote services and what was sent to them. Each service has a schedule of faults:
  the next call to it throws when the head of its schedule is \<open>True\<close>; an empty schedule
  means no fault. \<open>sheets\<close> maps a sheet id to its rows from row 2 on; \<open>masterRows\<close> are the
  data rows of the customers sheet; \<open>scorer\<close> is the answer \<^verbatim>\<open>scoreResume\<close> gives to a
  text; \<open>today\<close> is the tenant-local date the clock gives during the run. The four logs
  record every request issued, failed ones included.
\<close>

record World =
  sheets :: "string \<Rightarrow> LedgerRow list"
  sheetFaults :: "bool list"
  masterRows :: "CustomerRow list"
  masterFaults :: "bool list"
  rubrics :: "string \<Rightarrow> string option"
  scorer :: "string \<Rightarrow> Ai"
  aiFaults :: "bool list"
  mailFaults :: "bool list"
  dbFaults :: "bool list"
  today :: string
  writes :: "Write list"
  aiCalls :: "string list"
  mails :: "Mail list"
  audits :: "AuditRecord list"

text \<open>An asynchronous call: it resolves or rejects, and may change the world.\<close>

type_synonym 'a M = "World \<Rightarrow> (exn + 'a) \<times> World"

definition retM :: "'a \<Rightarrow> 'a M" where
  "retM x w = (Inr x, w)"

definition bindM :: "'a M \<Rightarrow> ('a \<Rightarrow> 'b M) \<Rightarrow> 'b M" where
  "bindM m f w = (case m w of (Inl e, w1) \<Rightarrow> (Inl e, w1) | (Inr x, w1) \<Rightarrow> f x w1)"

definition tryCatchM :: "'a M \<Rightarrow> (exn \<Rightarrow> 'a M) \<Rightarrow> 'a M" where
  "tryCatchM m handler w =
     (case m w of (Inl e, w1) \<Rightarrow> handler e w1 | (Inr x, w1) \<Rightarrow> (Inr x, w1))"

section \<open>Ledger store\<close>

text \<open>One request to the spreadsheet service takes the next entry of its fault schedule.\<close>

definition sheetsRequest :: "unit M" where
  "sheetsRequest w =
     (case sheetFaults w of
        [] \<Rightarrow> (Inr (), w)
      | f # fs \<Rightarrow> (if f then Inl (Exn ''sheets_request_failed'') else Inr (),
                   w\<lparr>sheetFaults := fs\<rparr>))"

text \<open>\<^verbatim>\<open>values.get\<close> with range \<^verbatim>\<open>A2:H1000\<close>: at most 999 rows.\<close>

definition valuesGetRows :: "string \<Rightarrow> LedgerRow list M" where
  "valuesGetRows sid = bindM sheetsRequest (\<lambda>_ w. (Inr (take 999 (sheets w sid)), w))"

text \<open>The text of cell G of a row number; a cell outside the data reads as empty.\<close>

definition cellG :: "LedgerRow list \<Rightarrow> int \<Rightarrow> string" where
  "cellG rows rowNumber =
     (if 2 \<le> rowNumber \<and> nat (rowNumber - 2) < length rows
      then colG (rows ! nat (rowNumber - 2)) else [])"

text \<open>\<^verbatim>\<open>values.get\<close> with range \<^verbatim>\<open>G<rowNumber>\<close>, read through \<^verbatim>\<open>safeStr\<close>.\<close>

definition valuesGetG :: "string \<Rightarrow> int \<Rightarrow> string M" where
  "valuesGetG sid rowNumber =
     bindM sheetsRequest (\<lambda>_ w. (Inr (safeStr (cellG (sheets w sid) rowNumber)), w))"

fun applyCell :: "CellWrite \<Rightarrow> LedgerRow \<Rightarrow> LedgerRow" where
  "applyCell (WB n) r = r\<lparr>colB := n\<rparr>"
| "applyCell (WC s) r = r\<lparr>colC := s\<rparr>"
| "applyCell (WD s) r = r\<lparr>colD := s\<rparr>"
| "applyCell (WE s) r = r\<lparr>colE := s\<rparr>"
| "applyCell (WF s) r = r\<lparr>colF := s\<rparr>"
| "applyCell (WG s) r = r\<lparr>colG := s\<rparr>"
| "applyCell (WH n) r = r\<lparr>colH := Some n\<rparr>"

text \<open>
  The effect of a cell update on the rows: a row below the data is created blank first;
  row 1 is the header, which the rows do not hold.
\<close>

definition setCell :: "LedgerRow list \<Rightarrow> int \<Rightarrow> CellWrite \<Rightarrow> LedgerRow list" where
  "setCell rows rowNumber cw =
     (if rowNumber < 2 then rows
      else
        (let i = nat (rowNumber - 2);
             padded = rows @ replicate (i + 1 - length rows) blankRow
         in padded[i := applyCell cw (padded ! i)]))"

text \<open>\<^verbatim>\<open>values.update\<close> of one cell. The request is logged, then it succeeds or throws.\<close>

definition valuesUpdate :: "string \<Rightarrow> int \<Rightarrow> CellWrite \<Rightarrow> unit M" where
  "valuesUpdate sid rowNumber cw w =
     bindM sheetsRequest
       (\<lambda>_ w1. (Inr (), w1\<lparr>sheets := (sheets w1)(sid := setCell (sheets w1 sid) rowNumber cw)\<rparr>))
       (w\<lparr>writes := writes w @ [Update sid rowNumber cw]\<rparr>)"

text \<open>\<^verbatim>\<open>values.append\<close> with range \<^verbatim>\<open>A:H\<close>: one row after the data.\<close>

definition valuesAppend :: "string \<Rightarrow> LedgerRow \<Rightarrow> unit M" where
  "valuesAppend sid row w =
     bindM sheetsRequest
       (\<lambda>_ w1. (Inr (), w1\<lparr>sheets := (sheets w1)(sid := sheets w1 sid @ [row])\<rparr>))
       (w\<lparr>writes := writes w @ [Append sid row]\<rparr>)"

section \<open>Ledger engine\<close>

text \<open>\<^verbatim>\<open>rows.findIndex(p)\<close>: the first index where \<open>p\<close> holds, or \<open>-1\<close>.\<close>

fun findIndex :: "('a \<Rightarrow> bool) \<Rightarrow> 'a list \<Rightarrow> int" where
  "findIndex p [] = - 1"
| "findIndex p (x # xs) =
     (if p x then 0 else (let i = findIndex p xs in if i = - 1 then - 1 else i + 1))"

definition stripR2FromNotes :: "string \<Rightarrow> string" where
  "stripR2FromNotes notes =
     (let n = safeStr notes
      in if n = [] then []
         else joinCommaSp
                (filter (\<lambda>part. part \<noteq> [] \<and> \<not> startsWith (toLowerCase part) ''r2:'')
                   (map trim (splitComma n))))"

definition appendNote :: "string \<Rightarrow> string \<Rightarrow> string" where
  "appendNote existing note =
     (let ex = safeStr existing
      in if ex = [] then note
         else
           (let parts = map trim (splitComma ex)
            in if note \<in> set parts then ex else ex @ '', '' @ note))"

text \<open>
  The tokens of a token-set cell: \<^verbatim>\<open>csv.split(",").map(trim).filter(Boolean)\<close>, and
  none for an empty cell.
\<close>

definition tokensOf :: "string \<Rightarrow> string list" where
  "tokensOf csv =
     (if csv \<noteq> [] then filter (\<lambda>s. s \<noteq> []) (map trim (splitComma csv)) else [])"

record EnsureResult =
  rowIndex0 :: int
  currentCount :: int
  currentNotes :: string

text \<open>
  \<^verbatim>\<open>ensureTodayTallyRow\<close>. The sharing of the sheet that precedes the first read swallows
  its own failures and touches no cell; it is left out.
\<close>

definition ensureTodayTallyRow :: "string \<Rightarrow> string \<Rightarrow> string \<Rightarrow> EnsureResult M" where
  "ensureTodayTallyRow sid tday cid =
     bindM (valuesGetRows sid) (\<lambda>rows.
       (let rowIndex0 = findIndex (\<lambda>r. safeStr (colA r) = tday) rows
        in if rowIndex0 \<noteq> - 1 then
             retM \<lparr>rowIndex0 = rowIndex0,
                   currentCount = colB (rows ! nat rowIndex0),
                   currentNotes = safeStr (colC (rows ! nat rowIndex0))\<rparr>
           else
             bindM (valuesAppend sid
                      \<lparr>colA = tday, colB = 0, colC = [], colD = cid, colE = [], colF = [],
                       colG = [], colH = None\<rparr>) (\<lambda>_.
             bindM (valuesGetRows sid) (\<lambda>rows2.
               (let idx2 = findIndex (\<lambda>r. safeStr (colA r) = tday) rows2
                in retM \<lparr>rowIndex0 = (if idx2 = - 1 then int (length rows2) - 1 else idx2),
                         currentCount = 0,
                         currentNotes = []\<rparr>)))))"

text \<open>
  Configuration read from the environment at start-up. \<open>encodeKey\<close> stands for
  \<^verbatim>\<open>encodeURIComponent(key).replace(/%2F/g, "/")\<close>.
\<close>

record Env =
  MAX_EXTRACTED_CHARS :: nat
  MAX_OPENAI_CHARS :: nat
  R2_PUBLIC_LINKS :: bool
  R2_PUBLIC_BASE_URL :: string
  encodeKey :: "string \<Rightarrow> string"
  libs :: Libs

definition buildR2PublicUrl :: "Env \<Rightarrow> string \<Rightarrow> string" where
  "buildR2PublicUrl env r2Key =
     (if \<not> R2_PUBLIC_LINKS env then []
      else if R2_PUBLIC_BASE_URL env = [] then []
      else if r2Key = [] then []
      else R2_PUBLIC_BASE_URL env @ ''/'' @ encodeKey env r2Key)"

text \<open>The double quote character.\<close>

definition dq :: char where
  "dq = CHR 0x22"

record TallyOk =
  tallyToday :: string
  nextCount :: int
  nextNotes :: string
  shouldIncrement :: bool

text \<open>The clock: \<^verbatim>\<open>formatISO(toZonedTime(new Date(), TIMEZONE), { representation: "date" })\<close>.\<close>

definition todayInTZ :: "string M" where
  "todayInTZ w = (Inr (today w), w)"

text \<open>
  The write of columns E to H in \<^verbatim>\<open>tallyApply\<close>, for a resume with a storage key: the
  key, the file link, the token set read again and extended, and the score when it is a
  finite number. An absent \<^verbatim>\<open>r2Key\<close> or \<^verbatim>\<open>docToken\<close> is the empty string, which the
  source's truthiness tests treat alike.
\<close>

definition writePointerCells :: "Env \<Rightarrow> string \<Rightarrow> int \<Rightarrow> string \<Rightarrow> string \<Rightarrow> Ai \<Rightarrow> unit M" where
  "writePointerCells env sid rowNumber r2Key docToken ai =
     bindM (valuesUpdate sid rowNumber (WE r2Key)) (\<lambda>_.
     (let url = buildR2PublicUrl env r2Key;
          fileCell =
            (if url \<noteq> []
             then ''=HYPERLINK('' @ [dq] @ url @ [dq] @ '','' @ [dq] @ ''resume file'' @ [dq]
                  @ '')''
             else [])
      in
        bindM (valuesUpdate sid rowNumber (WF (if fileCell \<noteq> [] then fileCell else url))) (\<lambda>_.
        bindM (valuesGetG sid rowNumber) (\<lambda>currentG.
        (let tokens = tokensOf currentG;
             wanted = (if docToken \<noteq> [] then [docToken] else [])
                      @ (if r2Key \<noteq> [] then [''r2:'' @ r2Key] else []);
             tokens2 = foldl (\<lambda>ts x. if x \<in> set ts then ts else ts @ [x]) tokens wanted;
             nextG = joinCommaSp tokens2
         in
           bindM (valuesUpdate sid rowNumber (WG nextG)) (\<lambda>_.
           (case score ai of
              Some scoreNum \<Rightarrow> valuesUpdate sid rowNumber (WH scoreNum)
            | None \<Rightarrow> retM ())))))))"

text \<open>
  The idempotency check of \<^verbatim>\<open>tallyApply\<close>: has the token been recorded in column G
  today? A read that throws is ignored.
\<close>

definition hasTokenAlready :: "string \<Rightarrow> int \<Rightarrow> DocType \<Rightarrow> string \<Rightarrow> bool M" where
  "hasTokenAlready sid rowNumber dt docToken =
     (if dt = RESUME \<and> docToken \<noteq> [] then
        tryCatchM
          (bindM (valuesGetG sid rowNumber) (\<lambda>currentG.
             retM (docToken \<in> set (tokensOf currentG))))
          (\<lambda>e. retM False)
      else retM False)"

text \<open>
  The notes of the row as \<^verbatim>\<open>tallyApply\<close> cleans them: storage keys and the legacy
  \<^verbatim>\<open>inbound-file:NON_RESUME\<close> note are dropped.
\<close>

definition cleanNotes :: "string \<Rightarrow> string" where
  "cleanNotes notes =
     joinCommaSp
       (filter (\<lambda>s. s \<noteq> ''inbound-file:NON_RESUME'')
          (filter (\<lambda>s. s \<noteq> [])
             (map trim (splitComma (stripR2FromNotes notes)))))"

text \<open>\<^verbatim>\<open>tallyApply\<close>.\<close>

definition tallyApply ::
  "Env \<Rightarrow> string \<Rightarrow> string \<Rightarrow> DocType \<Rightarrow> string \<Rightarrow> string \<Rightarrow> string \<Rightarrow> Ai \<Rightarrow> TallyOk M" where
  "tallyApply env sid cid dt src r2Key docToken ai =
     bindM todayInTZ (\<lambda>tday.
     bindM (ensureTodayTallyRow sid tday cid) (\<lambda>er.
       (let cleanedNotes = cleanNotes (currentNotes er);
            rowNumber = rowIndex0 er + 2;
            note = (if dt = RESUME then src @ '':RESUME'' else src @ '':NON_RESUME'');
            notes2 = appendNote cleanedNotes note;
            increment = (dt = RESUME)
        in
          bindM (hasTokenAlready sid rowNumber dt docToken) (\<lambda>already.
          if already then
            retM \<lparr>tallyToday = tday, nextCount = currentCount er, nextNotes = notes2,
                  shouldIncrement = False\<rparr>
          else
            (let count2 = (if increment then currentCount er + 1 else currentCount er)
             in
               bindM (valuesUpdate sid rowNumber (WB count2)) (\<lambda>_.
               bindM (valuesUpdate sid rowNumber (WC notes2)) (\<lambda>_.
               bindM (valuesUpdate sid rowNumber (WD cid)) (\<lambda>_.
               bindM
                 (if dt = RESUME \<and> r2Key \<noteq> []
                  then writePointerCells env sid rowNumber r2Key docToken ai
                  else retM ()) (\<lambda>_.
               retM \<lparr>tallyToday = tday, nextCount = count2, nextNotes = notes2,
                     shouldIncrement = increment\<rparr>)))))))))"

section \<open>Customer directory and billing gate\<close>

definition masterRequest :: "unit M" where
  "masterRequest w =
     (case masterFaults w of
        [] \<Rightarrow> (Inr (), w)
      | f # fs \<Rightarrow> (if f then Inl (Exn ''master_sheet_request_failed'') else Inr (),
                   w\<lparr>masterFaults := fs\<rparr>))"

text \<open>
  \<^verbatim>\<open>readCustomersFromMasterSheet\<close>: every field goes through \<^verbatim>\<open>safeStr\<close>, and a row
  without a customer id is skipped.
\<close>

definition readCustomersFromMasterSheet :: "CustomerRow list M" where
  "readCustomersFromMasterSheet =
     bindM masterRequest (\<lambda>_ w.
       (Inr (filter (\<lambda>c. customerId c \<noteq> [])
               (map (\<lambda>row. \<lparr>customerId = safeStr (customerId row),
                             companyName = safeStr (companyName row),
                             adminEmail = safeStr (adminEmail row),
                             intakeEmail = safeStr (intakeEmail row),
                             status = safeStr (status row),
                             tallySheetId = safeStr (tallySheetId row)\<rparr>)
                  (masterRows w))), w))"

text \<open>
  \<^verbatim>\<open>getCustomersCached\<close>: the cache holds what an earlier read returned; a request, and
  so a fault, only happens on a refresh.
\<close>

definition getCustomersCached :: "CustomerRow list M" where
  "getCustomersCached = readCustomersFromMasterSheet"

definition isProcessingAllowed :: "string \<Rightarrow> bool \<times> string option" where
  "isProcessingAllowed billingStatusRaw =
     (let s = toLowerCase (safeStr billingStatusRaw)
      in if s = [] then (True, None)
         else if s = ''trial'' \<or> s = ''trialing'' then (True, None)
         else if s = ''active'' then (True, None)
         else if s = ''trial_ended'' then (False, Some ''trial_ended'')
         else if s = ''past_due'' then (False, Some ''past_due'')
         else if s = ''canceled'' then (False, Some ''canceled'')
         else if s = ''unpaid'' then (False, Some ''unpaid'')
         else (True, None))"

text \<open>
  The customer lookup of \<^verbatim>\<open>processInboundDoc\<close>: the last record whose intake address
  matches; a failed directory read leaves the customer unresolved.
\<close>

definition resolveCustomer :: "string \<Rightarrow> World \<Rightarrow> CustomerRow option \<times> World" where
  "resolveCustomer toEmail w =
     (if toEmail \<noteq> [] then
        (case getCustomersCached w of
           (Inl e, w1) \<Rightarrow> (None, w1)
         | (Inr existingCustomers, w1) \<Rightarrow>
             (find (\<lambda>x. toLowerCase (trim (safeStr (intakeEmail x))) = toEmail)
                (rev existingCustomers), w1))
      else (None, w))"

text \<open>\<^verbatim>\<open>getCustomerRubric\<close>: a failed query gives \<^verbatim>\<open>null\<close>, like a missing rubric.\<close>

definition getCustomerRubric :: "string \<Rightarrow> World \<Rightarrow> string option" where
  "getCustomerRubric cid w = (if cid = [] then None else rubrics w cid)"

section \<open>Scoring gateway\<close>

text \<open>
  \<^verbatim>\<open>scoreResume(text)\<close> of \<^verbatim>\<open>services/openaiScore.ts\<close>, seen from the caller: the text
  sent is logged, and the call answers or throws.
\<close>

definition scoreResume :: "string \<Rightarrow> Ai M" where
  "scoreResume text w =
     (let w1 = w\<lparr>aiCalls := aiCalls w @ [text]\<rparr>
      in case aiFaults w1 of
           [] \<Rightarrow> (Inr (scorer w1 text), w1)
         | f # fs \<Rightarrow> (if f then Inl (Exn ''score_resume_failed'') else Inr (scorer w1 text),
                      w1\<lparr>aiFaults := fs\<rparr>))"

text \<open>The line feed character.\<close>

definition nl :: char where
  "nl = CHR 0x0A"

text \<open>
  \<^verbatim>\<open>safeScoreResume\<close>: \<^verbatim>\<open>scoreResume\<close> takes one argument, so a rubric is merged into
  the text. The rubric is given as its rendered block.
\<close>

definition safeScoreResume :: "string \<Rightarrow> string option \<Rightarrow> Ai M" where
  "safeScoreResume text rubric =
     (case rubric of
        None \<Rightarrow> scoreResume text
      | Some rubricBlock \<Rightarrow>
          (if rubricBlock \<noteq> [] then
             scoreResume (''RUBRIC (customer scoring criteria):'' @ [nl] @ rubricBlock
                          @ [nl, nl] @ text)
           else scoreResume text))"

definition aiSkip :: "string \<Rightarrow> Ai" where
  "aiSkip r = \<lparr>skipped = True, reason = r, error = [], score = None\<rparr>"

definition aiFailed :: Ai where
  "aiFailed = \<lparr>skipped = False, reason = [], error = ''ai_failed'', score = None\<rparr>"

text \<open>
  The daily idempotency check that precedes scoring: is the token in column G of today's
  row? A failure of the check counts as "not processed".
\<close>

definition alreadyProcessedToday :: "string \<Rightarrow> string \<Rightarrow> string \<Rightarrow> World \<Rightarrow> bool \<times> World" where
  "alreadyProcessedToday sid cid docToken w =
     (case (if sid \<noteq> [] \<and> cid \<noteq> [] \<and> docToken \<noteq> [] then
              bindM todayInTZ (\<lambda>tday.
              bindM (ensureTodayTallyRow sid tday cid) (\<lambda>er.
              bindM (valuesGetG sid (rowIndex0 er + 2)) (\<lambda>currentCsv.
              retM (docToken \<in> set (tokensOf currentCsv)))))
            else retM False) w of
        (Inl e, w1) \<Rightarrow> (False, w1)
      | (Inr b, w1) \<Rightarrow> (b, w1))"

text \<open>The section "AI scoring (with idempotency)" of \<^verbatim>\<open>processInboundDoc\<close>.\<close>

definition aiScoring ::
  "Env \<Rightarrow> bytes \<Rightarrow> string \<Rightarrow> bool \<Rightarrow> DocType \<Rightarrow> string \<Rightarrow> string \<Rightarrow> bool \<Rightarrow> string option
     \<Rightarrow> World \<Rightarrow> Ai \<times> World" where
  "aiScoring env buf extractedText extractedTooLarge dt sid cid blocked rubric w =
     (if blocked then (aiSkip ''billing_block'', w)
      else if dt = RESUME \<and> length (trim extractedText) > 40 then
        (if extractedTooLarge then (aiSkip ''too_large'', w)
         else
           (let docHash = sha256Hex (libs env) buf;
                docToken = ''hash:'' @ docHash
            in case alreadyProcessedToday sid cid docToken w of
                 (already, w1) \<Rightarrow>
                   (if extractedText \<noteq> [] \<and> length extractedText \<ge> 120 then
                      (if already then (aiSkip ''idempotent_skip'', w1)
                       else
                         (let forAi = take (MAX_OPENAI_CHARS env) extractedText
                          in case safeScoreResume forAi rubric w1 of
                               (Inl e, w2) \<Rightarrow> (aiFailed, w2)
                             | (Inr ai, w2) \<Rightarrow> (ai, w2)))
                    else (aiSkip ''too_short'', w1))))
      else (aiSkip (if dt \<noteq> RESUME then ''non_resume'' else ''too_short''), w))"

section \<open>Tally, audit and result email\<close>

datatype TallyResult =
    TallyNull
  | TallySkipped string
  | TallyDone TallyOk
  | TallyFailed

text \<open>The section "Tally apply" of \<^verbatim>\<open>processInboundDoc\<close>.\<close>

definition tallyStep ::
  "Env \<Rightarrow> bytes \<Rightarrow> string \<Rightarrow> string \<Rightarrow> DocType \<Rightarrow> string \<Rightarrow> string \<Rightarrow> bool \<Rightarrow> Ai
     \<Rightarrow> World \<Rightarrow> TallyResult \<times> World" where
  "tallyStep env buf src r2Key dt sheetId cid blocked ai w =
     (let docToken = ''hash:'' @ sha256Hex (libs env) buf;
          shouldSkipTally = (skipped ai \<and> reason ai = ''idempotent_skip'')
      in if blocked then (TallySkipped ''billing_block'', w)
         else if shouldSkipTally then (TallySkipped ''idempotent_skip'', w)
         else if sheetId \<noteq> [] \<and> cid \<noteq> [] then
           (case tallyApply env sheetId cid dt src r2Key docToken ai w of
              (Inl e, w1) \<Rightarrow> (TallyFailed, w1)
            | (Inr t, w1) \<Rightarrow> (TallyDone t, w1))
         else (TallyNull, w))"

text \<open>\<^verbatim>\<open>saveInboundDocToDb\<close>: the insert is issued; its failure is logged and dropped.\<close>

definition saveInboundDocToDb :: "AuditRecord \<Rightarrow> World \<Rightarrow> World" where
  "saveInboundDocToDb rec w =
     (let w1 = w\<lparr>audits := audits w @ [rec]\<rparr>
      in case dbFaults w1 of [] \<Rightarrow> w1 | f # fs \<Rightarrow> w1\<lparr>dbFaults := fs\<rparr>)"

text \<open>
  \<^verbatim>\<open>sendCustomerText\<close>: one call of the mail service's send function; what it throws is
  logged and dropped.
\<close>

definition sendCustomerText :: "string \<Rightarrow> MailKind \<Rightarrow> World \<Rightarrow> World" where
  "sendCustomerText to kind w =
     (let w1 = w\<lparr>mails := mails w @ [\<lparr>mailTo = to, mailKind = kind\<rparr>]\<rparr>
      in case mailFaults w1 of [] \<Rightarrow> w1 | f # fs \<Rightarrow> w1\<lparr>mailFaults := fs\<rparr>)"

text \<open>\<^verbatim>\<open>tallyResult?.shouldIncrement === true\<close>.\<close>

definition didIncrement :: "TallyResult \<Rightarrow> bool" where
  "didIncrement tallyResult =
     (case tallyResult of TallyDone t \<Rightarrow> shouldIncrement t | _ \<Rightarrow> False)"

text \<open>
  The section "Result email" of \<^verbatim>\<open>processInboundDoc\<close>. Subject and body are not
  modelled beyond the kind of message.
\<close>

definition resultEmail ::
  "string \<Rightarrow> bool \<Rightarrow> bool \<Rightarrow> DocType \<Rightarrow> Ai \<Rightarrow> TallyResult \<Rightarrow> World \<Rightarrow> World" where
  "resultEmail toEmail matchFound blocked dt ai tallyResult w =
     (let hasToEmail = (toEmail \<noteq> []);
          isResume = (dt = RESUME);
          aiSkipped = skipped ai;
          aiError = (error ai \<noteq> [])
      in if \<not> didIncrement tallyResult then w
         else
           (let SEND_RECEIPT_IF_AI_SKIPPED = True;
                scoredEligible =
                  (hasToEmail \<and> matchFound \<and> \<not> blocked \<and> isResume \<and> \<not> aiSkipped \<and> \<not> aiError);
                receiptEligible =
                  (hasToEmail \<and> matchFound \<and> \<not> blocked \<and> isResume \<and> SEND_RECEIPT_IF_AI_SKIPPED)
            in if \<not> scoredEligible \<and> \<not> receiptEligible then w
               else
                 (let isReceipt = \<not> scoredEligible
                  in sendCustomerText toEmail (if isReceipt then Receipt else Scored) w)))"

section \<open>The inbound pipeline\<close>

record Args =
  argSource :: string
  argFilename :: string
  argBuffer :: bytes
  argExtractedText :: "string option"
  argDocType :: "DocType option"
  argToEmail :: "string option"
  argR2Key :: "string option"

record InboundDocResult =
  resToEmail :: string
  resCustomerId :: string
  resDocType :: DocType
  resTextPreview :: string
  resBillingStatus :: string
  resBlocked :: bool
  resBlockedReason :: "string option"
  resTally :: TallyResult
  resAi :: Ai
  resMatchFound :: bool

text \<open>
  The values \<^verbatim>\<open>processInboundDoc\<close> derives from its arguments, from the raw extracted
  text and from the customer record it resolved (its local constants, as functions of
  what they depend on). Of \<^verbatim>\<open>args.r2\<close> only the key is kept.
\<close>

definition extractedTooLargeOf :: "Env \<Rightarrow> string \<Rightarrow> bool" where
  "extractedTooLargeOf env extractedTextRaw = (length extractedTextRaw > MAX_EXTRACTED_CHARS env)"

definition extractedTextOf :: "Env \<Rightarrow> string \<Rightarrow> string" where
  "extractedTextOf env extractedTextRaw =
     (if extractedTooLargeOf env extractedTextRaw
      then take (MAX_EXTRACTED_CHARS env) extractedTextRaw
      else extractedTextRaw)"

definition docTypeOf :: "Args \<Rightarrow> string \<Rightarrow> DocType" where
  "docTypeOf args extractedText =
     (case argDocType args of
        Some d \<Rightarrow> d
      | None \<Rightarrow>
          (if length (trim extractedText) > 0
           then classifyDocTypeFromText extractedText else NON_RESUME))"

definition toEmailOf :: "Args \<Rightarrow> string" where
  "toEmailOf args = toLowerCase (trim (safeStr (orEmpty (argToEmail args))))"

definition r2KeyOf :: "Args \<Rightarrow> string" where
  "r2KeyOf args = safeStr (orEmpty (argR2Key args))"

definition customerIdOf :: "CustomerRow option \<Rightarrow> string" where
  "customerIdOf match = (case match of None \<Rightarrow> [] | Some m \<Rightarrow> safeStr (customerId m))"

definition billingStatusOf :: "CustomerRow option \<Rightarrow> string" where
  "billingStatusOf match = safeStr (case match of None \<Rightarrow> [] | Some m \<Rightarrow> status m)"

definition sheetIdOf :: "CustomerRow option \<Rightarrow> string" where
  "sheetIdOf match = safeStr (case match of None \<Rightarrow> [] | Some m \<Rightarrow> tallySheetId m)"

definition blockedOf :: "CustomerRow option \<Rightarrow> bool" where
  "blockedOf match =
     (customerIdOf match \<noteq> [] \<and> \<not> fst (isProcessingAllowed (billingStatusOf match)))"

definition blockedReasonOf :: "CustomerRow option \<Rightarrow> string option" where
  "blockedReasonOf match =
     (if blockedOf match
      then Some (case snd (isProcessingAllowed (billingStatusOf match)) of
                   None \<Rightarrow> ''billing_block''
                 | Some r \<Rightarrow> r)
      else None)"

text \<open>The record handed to \<^verbatim>\<open>saveInboundDocToDb\<close>, and the object returned.\<close>

definition auditOf :: "Args \<Rightarrow> string \<Rightarrow> DocType \<Rightarrow> CustomerRow option \<Rightarrow> Ai \<Rightarrow> AuditRecord" where
  "auditOf args extractedText dt match ai =
     \<lparr>auditToEmail = toEmailOf args,
      auditCustomerId = customerIdOf match,
      auditMatchFound = (match \<noteq> None),
      auditBillingStatus = billingStatusOf match,
      auditBlockedReason = blockedReasonOf match,
      auditDocType = dt,
      auditExtractedChars = length extractedText,
      auditAi = ai\<rparr>"

definition resultOf ::
  "Args \<Rightarrow> string \<Rightarrow> DocType \<Rightarrow> CustomerRow option \<Rightarrow> Ai \<Rightarrow> TallyResult \<Rightarrow> InboundDocResult" where
  "resultOf args extractedText dt match ai tallyResult =
     \<lparr>resToEmail = toEmailOf args,
      resCustomerId = customerIdOf match,
      resDocType = dt,
      resTextPreview = take 400 extractedText,
      resBillingStatus = billingStatusOf match,
      resBlocked = blockedOf match,
      resBlockedReason = blockedReasonOf match,
      resTally = tallyResult,
      resAi = ai,
      resMatchFound = (match \<noteq> None)\<rparr>"

text \<open>
  \<^verbatim>\<open>processInboundDoc\<close>. The three \<^verbatim>\<open>return\<close> statements of the source return the same
  object; they differ in whether a message was sent before.
\<close>

definition processInboundDoc :: "Env \<Rightarrow> Args \<Rightarrow> World \<Rightarrow> (exn + InboundDocResult) \<times> World" where
  "processInboundDoc env args w =
     (case (case argExtractedText args of
              Some t \<Rightarrow> Inr t
            | None \<Rightarrow> extractTextFromBuffer (libs env) (argFilename args) (argBuffer args)) of
        Inl e \<Rightarrow> (Inl e, w)
      | Inr extractedTextRaw \<Rightarrow>
          (let extractedTooLarge = extractedTooLargeOf env extractedTextRaw;
               extractedText = extractedTextOf env extractedTextRaw;
               dt = docTypeOf args extractedText;
               toEmail = toEmailOf args
           in case resolveCustomer toEmail w of
                (match, w1) \<Rightarrow>
                  (let cid = customerIdOf match;
                       blocked = blockedOf match;
                       rubric = getCustomerRubric cid w1;
                       sheetId = sheetIdOf match;
                       r2Key = r2KeyOf args
                   in case aiScoring env (argBuffer args) extractedText extractedTooLarge dt
                             sheetId cid blocked rubric w1 of
                        (ai, w2) \<Rightarrow>
                          (case tallyStep env (argBuffer args) (argSource args) r2Key dt sheetId
                                  cid blocked ai w2 of
                             (tallyResult, w3) \<Rightarrow>
                               (let w4 = saveInboundDocToDb
                                           (auditOf args extractedText dt match ai) w3;
                                    w5 = resultEmail toEmail (match \<noteq> None) blocked dt ai
                                           tallyResult w4
                                in (Inr (resultOf args extractedText dt match ai tallyResult),
                                    w5))))))"

section \<open>Sample inputs\<close>

text \<open>A short resume text: 105 letters, with the strong indicators of a resume.\<close>

definition sampleResume :: string where
  "sampleResume =
     ''Work Experience: ten years as a software engineer building billing systems. Education: BSc in Computer Science. Skills: Java, SQL.''"

text \<open>
  A text of 100 characters with 99 letters, 20 of them the accented capital U+00C9: the
  word RESUME, a space, the 20 accented capitals, and 73 times the letter x.
\<close>

definition accentedText :: string where
  "accentedText = ''RESUME '' @ replicate 20 (CHR 0xC9) @ replicate 73 CHR ''x''"

text \<open>Library stand-ins for the sample runs: Latin-1 decoding, parsers that find no text.\<close>

definition sampleLibs :: Libs where
  "sampleLibs =
     \<lparr>utf8ToString = map (\<lambda>b. char_of (unat b)),
      utf16leToString = map (\<lambda>b. char_of (unat b)),
      pdfParse = (\<lambda>buf. Inr None),
      mammothExtractRawText = (\<lambda>buf. Inr None),
      sha256Hex = (\<lambda>buf. ''9f86d081884c7d65'')\<rparr>"

text \<open>
  A parsed PDF text of 2001 characters: 99 letters, 1901 spaces, one more letter. Of its
  first 2000 characters 99 are letters, which is less than 5%.
\<close>

definition sparsePdfText :: string where
  "sparsePdfText = replicate 99 CHR ''a'' @ replicate 1901 CHR '' '' @ ''b''"

text \<open>A parsed PDF text without any letter.\<close>

definition digitsPdfText :: string where
  "digitsPdfText = ''0123456789 0123456789 0123456789''"

definition sparsePdfLibs :: Libs where
  "sparsePdfLibs = sampleLibs\<lparr>pdfParse := (\<lambda>buf. Inr (Some sparsePdfText))\<rparr>"

definition digitsPdfLibs :: Libs where
  "digitsPdfLibs = sampleLibs\<lparr>pdfParse := (\<lambda>buf. Inr (Some digitsPdfText))\<rparr>"

text \<open>
  A tenant on trial with one tally sheet. Today's row counts one resume, whose token is
  recorded in column G.
\<close>

definition sampleEnv :: Env where
  "sampleEnv =
     \<lparr>MAX_EXTRACTED_CHARS = 120000, MAX_OPENAI_CHARS = 60000, R2_PUBLIC_LINKS = False,
      R2_PUBLIC_BASE_URL = [], encodeKey = (\<lambda>k. k), libs = sampleLibs\<rparr>"

definition sampleCustomer :: CustomerRow where
  "sampleCustomer =
     \<lparr>customerId = ''cust_acme'', companyName = ''Acme'', adminEmail = ''hr@acme.test'',
      intakeEmail = ''Resumes@Acme.test'', status = ''trialing'', tallySheetId = ''sheet1''\<rparr>"

definition sampleDayRow :: LedgerRow where
  "sampleDayRow =
     \<lparr>colA = ''2026-01-15'', colB = 1, colC = ''resend:RESUME'', colD = ''cust_acme'',
      colE = ''inbound/a.txt'', colF = [], colG = ''hash:9f86d081884c7d65, r2:inbound/a.txt'',
      colH = Some 70\<rparr>"

definition sampleScore :: Ai where
  "sampleScore = \<lparr>skipped = False, reason = [], error = [], score = Some 82\<rparr>"

definition sampleWorld :: World where
  "sampleWorld =
     \<lparr>sheets = (\<lambda>sid. if sid = ''sheet1'' then [sampleDayRow] else []),
      sheetFaults = [],
      masterRows = [sampleCustomer],
      masterFaults = [],
      rubrics = (\<lambda>cid. None),
      scorer = (\<lambda>t. sampleScore),
      aiFaults = [],
      mailFaults = [],
      dbFaults = [],
      today = ''2026-01-15'',
      writes = [],
      aiCalls = [],
      mails = [],
      audits = []\<rparr>"

text \<open>
  The same world when the second request to the sheets service fails: the read of the
  rows succeeds, the read of the token cell throws.
\<close>

definition readFaultWorld :: World where
  "readFaultWorld = sampleWorld\<lparr>sheetFaults := [False, True]\<rparr>"

text \<open>
  A submission of the resume text for the sample tenant. Its buffer hashes to the token
  already recorded in today's row.
\<close>

definition sampleArgs :: Args where
  "sampleArgs =
     \<lparr>argSource = ''resend'', argFilename = ''cv.txt'', argBuffer = [],
      argExtractedText = Some sampleResume, argDocType = Some RESUME,
      argToEmail = Some ''resumes@acme.test'', argR2Key = Some ''inbound/b.txt''\<rparr>"


text \<open>
  The sample tenant past due: the row of the customers sheet, the record read from it,
  and the world holding it.
\<close>

definition pastDueCustomer :: CustomerRow where
  "pastDueCustomer = sampleCustomer\<lparr>status := '' Past_Due ''\<rparr>"

definition pastDueRecord :: CustomerRow where
  "pastDueRecord = sampleCustomer\<lparr>status := ''Past_Due''\<rparr>"

definition pastDueWorld :: World where
  "pastDueWorld = sampleWorld\<lparr>masterRows := [pastDueCustomer]\<rparr>"

text \<open>
  The sample world when today's row holds no token yet, and submissions of longer texts:
  60030 characters (more than \<^verbatim>\<open>MAX_OPENAI_CHARS\<close>, less than \<^verbatim>\<open>MAX_EXTRACTED_CHARS\<close>)
  and 120130 characters (more than both).
\<close>

definition freshDayWorld :: World where
  "freshDayWorld =
     sampleWorld\<lparr>sheets := (\<lambda>sid. if sid = ''sheet1''
                                   then [sampleDayRow\<lparr>colG := []\<rparr>] else [])\<rparr>"

definition longResume :: string where
  "longResume = sampleResume @ replicate 59900 CHR ''x''"

definition longArgs :: Args where
  "longArgs = sampleArgs\<lparr>argExtractedText := Some longResume\<rparr>"

definition hugeResume :: string where
  "hugeResume = sampleResume @ replicate 120000 CHR ''x''"

definition hugeArgs :: Args where
  "hugeArgs = sampleArgs\<lparr>argExtractedText := Some hugeResume\<rparr>"

text \<open>The resume text cut to exactly 120 and to 119 characters.\<close>

definition resume120 :: string where
  "resume120 = take 120 sampleResume"

definition resume119 :: string where
  "resume119 = take 119 sampleResume"

definition args120 :: Args where
  "args120 = sampleArgs\<lparr>argExtractedText := Some resume120\<rparr>"

definition args119 :: Args where
  "args119 = sampleArgs\<lparr>argExtractedText := Some resume119\<rparr>"




section \<open>Vocabulary of the proofs\<close>

text \<open>A call that, run without pending sheet fault, returns and leaves none pending.\<close>

definition okM :: "'a M \<Rightarrow> bool" where
  "okM m = (\<forall>w. sheetFaults w = [] \<longrightarrow> (\<exists>x w1. m w = (Inr x, w1) \<and> sheetFaults w1 = []))"

text \<open>A call that only adds to the log of ledger writes.\<close>

definition growsM :: "(World \<Rightarrow> 'a \<times> World) \<Rightarrow> bool" where
  "growsM m = (\<forall>w. \<exists>ws. writes (snd (m w)) = writes w @ ws)"


text \<open>
  A call is unaffected by a change \<open>u\<close> of the world when running it after the change gives the
  same result and the changed final world: the call neither reads nor writes what \<open>u\<close>
  touches.
\<close>

definition unaffected :: "(World \<Rightarrow> World) \<Rightarrow> (World \<Rightarrow> 'a \<times> World) \<Rightarrow> bool" where
  "unaffected u m = (\<forall>w. m (u w) = (fst (m w), u (snd (m w))))"

text \<open>Replacing the state of the mail service, and replacing the log of scorer calls.\<close>

definition mailU :: "bool list \<Rightarrow> Mail list \<Rightarrow> World \<Rightarrow> World" where
  "mailU mf ms w = w\<lparr>mailFaults := mf, mails := ms\<rparr>"

definition aiU :: "string list \<Rightarrow> World \<Rightarrow> World" where
  "aiU cs w = w\<lparr>aiCalls := cs\<rparr>"

text \<open>A change that every request to the ledger store, and the clock, respect.\<close>

definition neutral :: "(World \<Rightarrow> World) \<Rightarrow> bool" where
  "neutral u =
     ((\<forall>sid. unaffected u (valuesGetRows sid))
      \<and> (\<forall>sid rn. unaffected u (valuesGetG sid rn))
      \<and> (\<forall>sid rn cw. unaffected u (valuesUpdate sid rn cw))
      \<and> (\<forall>sid row. unaffected u (valuesAppend sid row))
      \<and> unaffected u todayInTZ)"

section \<open>Properties of the string helpers\<close>

lemma code_char_of: "n < 256 \<Longrightarrow> code (char_of n) = n"
  by (simp add: code_def)

lemma code_lt_256: "code c < 256"
  unfolding code_def by (metis char_of_char of_char_of mod_less_divisor zero_less_numeral)

lemma lowerChar_idem: "lowerChar (lowerChar c) = lowerChar c"
  using code_lt_256[of c] by (auto simp: lowerChar_def code_char_of)

lemma toLowerCase_idem: "toLowerCase (toLowerCase s) = toLowerCase s"
  by (simp add: toLowerCase_def lowerChar_idem)

lemma isLowerAZ_lowerChar: "isLowerAZ (lowerChar c) = isAZaz c"
  using code_lt_256[of c] by (auto simp: lowerChar_def isLowerAZ_def isAZaz_def code_char_of)

lemma letters_toLowerCase:
  "length (filter isLowerAZ (toLowerCase t)) = length (filter isAZaz t)"
  by (induction t) (simp_all add: toLowerCase_def isLowerAZ_lowerChar)

lemma startsWith_iff: "startsWith s p \<longleftrightarrow> (\<exists>r. s = p @ r)"
  by (induction s p rule: startsWith.induct) auto

lemma includesStr_iff: "includesStr t k \<longleftrightarrow> occursIn k t"
proof (induction t)
  case Nil
  show ?case by (auto simp: occursIn_def)
next
  case (Cons c cs)
  have "occursIn k (c # cs) \<longleftrightarrow> (\<exists>r. c # cs = k @ r) \<or> occursIn k cs"
    unfolding occursIn_def
  proof
    assume "\<exists>p s. c # cs = p @ k @ s"
    then obtain p s where ps: "c # cs = p @ k @ s" by blast
    show "(\<exists>r. c # cs = k @ r) \<or> (\<exists>p s. cs = p @ k @ s)"
    proof (cases p)
      case Nil
      with ps show ?thesis by auto
    next
      case (Cons a p')
      with ps have "cs = p' @ k @ s" by simp
      then show ?thesis by blast
    qed
  next
    assume "(\<exists>r. c # cs = k @ r) \<or> (\<exists>p s. cs = p @ k @ s)"
    then show "\<exists>p s. c # cs = p @ k @ s"
    proof
      assume "\<exists>r. c # cs = k @ r"
      then obtain r where "c # cs = [] @ k @ r" by auto
      then show ?thesis by blast
    next
      assume "\<exists>p s. cs = p @ k @ s"
      then obtain p s where "c # cs = (c # p) @ k @ s" by auto
      then show ?thesis by blast
    qed
  qed
  with Cons show ?case by (simp add: startsWith_iff)
qed

section \<open>The classifier\<close>

lemma foldl_count: "foldl (\<lambda>n k. if P k then n + 1 else n) a ks = a + length (filter P ks)"
  by (induction ks arbitrary: a) simp_all

lemma countAny_card:
  assumes "distinct ks"
  shows "countAny t ks = indicatorsPresent ks t"
proof -
  have "countAny t ks = length (filter (\<lambda>k. occursIn k t) ks)"
    by (simp add: countAny_def foldl_count includesStr_iff)
  also have "\<dots> = card {k \<in> set ks. occursIn k t}"
    using assms by (simp add: distinct_length_filter Int_def conj_commute)
  finally show ?thesis by (simp add: indicatorsPresent_def)
qed

lemma distinct_resumeStrong: "distinct resumeStrong"
  by (simp add: resumeStrong_def)

lemma distinct_resumeWeak: "distinct resumeWeak"
  by (simp add: resumeWeak_def)

lemma distinct_nonResumeStrong: "distinct nonResumeStrong"
  by (simp add: nonResumeStrong_def)

lemma hasAny_iff: "hasAny t ks \<longleftrightarrow> (\<exists>k \<in> set ks. occursIn k t)"
  by (simp add: hasAny_def list_ex_iff includesStr_iff)

text \<open>The decision rule, as the code computes it.\<close>

lemma decisionRule_code:
  "decisionRule text =
     (if hasAny text resumeStrong
         \<and> countAny text nonResumeStrong * 3
             < countAny text resumeStrong * 3 + countAny text resumeWeak then RESUME
      else if 3 \<le> countAny text resumeStrong * 3 + countAny text resumeWeak
         \<and> countAny text nonResumeStrong * 3
             \<le> countAny text resumeStrong * 3 + countAny text resumeWeak then RESUME
      else NON_RESUME)"
  by (simp add: decisionRule_def Let_def countAny_card distinct_resumeStrong
      distinct_resumeWeak distinct_nonResumeStrong hasAny_iff mult.commute)

section \<open>Properties of the extractor\<close>

lemma looksGarbledText_iff:
  "looksGarbledText s \<longleftrightarrow>
     (let t = trim (take 2000 s) in t = [] \<or> 20 * length (filter isAZaz t) < length t)"
proof (cases "trim (take 2000 s) = []")
  case True
  then show ?thesis by (simp add: looksGarbledText_def)
next
  case False
  define n where "n = length (trim (take 2000 s))"
  define l where "l = length (filter isAZaz (trim (take 2000 s)))"
  from False have n: "0 < n" by (simp add: n_def)
  then have m: "max n 1 = n" by simp
  have "real l / real n < 5 / 100 \<longleftrightarrow> real (20 * l) < real n"
    using n by (simp add: field_simps)
  also have "\<dots> \<longleftrightarrow> 20 * l < n" by (simp only: of_nat_less_iff)
  finally have "real l / real (max n 1) < 5 / 100 \<longleftrightarrow> 20 * l < n" by (simp only: m)
  with False show ?thesis
    by (simp add: looksGarbledText_def Let_def n_def l_def)
qed

lemma extract_never_throws: "\<exists>s. extractTextFromBuffer L filename buf = Inr s"
  by (simp add: extractTextFromBuffer_def tryCatch_def Let_def split: sum.splits)

lemma txt_not_pdf: "endsWith n ''.txt'' \<Longrightarrow> \<not> endsWith n ''.pdf''"
  by (auto simp: endsWith_def startsWith_iff)

lemma extract_pdf_throw:
  "endsWith (toLowerCase filename) ''.pdf'' \<Longrightarrow> pdfParse L buf = Inl e
   \<Longrightarrow> extractTextFromBuffer L filename buf = Inr []"
  using txt_not_pdf[of "toLowerCase filename"]
  by (auto simp add: extractTextFromBuffer_def tryCatch_def Let_def)

lemma extract_pdf_parsed:
  "endsWith (toLowerCase filename) ''.pdf'' \<Longrightarrow> pdfParse L buf = Inr parsed
   \<Longrightarrow> extractTextFromBuffer L filename buf =
       Inr (if looksGarbledText (trim (orEmpty parsed)) then [] else trim (orEmpty parsed))"
  using txt_not_pdf[of "toLowerCase filename"]
  by (auto simp add: extractTextFromBuffer_def tryCatch_def Let_def safeStr_def)

lemma txt_not_docx: "endsWith n ''.txt'' \<Longrightarrow> \<not> endsWith n ''.docx''"
  by (auto simp: endsWith_def startsWith_iff)

lemma pdf_not_docx: "endsWith n ''.pdf'' \<Longrightarrow> \<not> endsWith n ''.docx''"
  by (auto simp: endsWith_def startsWith_iff)

lemma extract_docx_throw:
  "endsWith (toLowerCase filename) ''.docx'' \<Longrightarrow> mammothExtractRawText L buf = Inl e
   \<Longrightarrow> extractTextFromBuffer L filename buf = Inr []"
  using txt_not_docx[of "toLowerCase filename"] pdf_not_docx[of "toLowerCase filename"]
  by (auto simp add: extractTextFromBuffer_def tryCatch_def Let_def)

lemma isWs_space: "isWs CHR '' ''"
  by (simp add: isWs_def code_def)

lemma not_isWs_a: "\<not> isWs CHR ''a''"
  by (simp add: isWs_def code_def)

lemma not_isWs_b: "\<not> isWs CHR ''b''"
  by (simp add: isWs_def code_def)

section \<open>Properties of the ledger store\<close>

lemma bindM_Inr: "m w = (Inr x, w1) \<Longrightarrow> bindM m f w = f x w1"
  by (simp add: bindM_def)

lemma bindM_Inl: "m w = (Inl e, w1) \<Longrightarrow> bindM m f w = (Inl e, w1)"
  by (simp add: bindM_def)

lemma bindM_retM: "bindM (retM x) f = f x"
  by (rule ext) (simp add: bindM_def retM_def)

lemma bindM_todayInTZ: "bindM todayInTZ f w = f (today w) w"
  by (simp add: bindM_def todayInTZ_def)

text \<open>A request to the sheets service: what it leaves alone, and its three outcomes.\<close>

lemma sheetsRequest_cases:
  obtains (none) "sheetFaults w = []" "sheetsRequest w = (Inr (), w)"
  | (fault) fs where "sheetFaults w = True # fs"
      "sheetsRequest w = (Inl (Exn ''sheets_request_failed''), w\<lparr>sheetFaults := fs\<rparr>)"
  | (ok) fs where "sheetFaults w = False # fs"
      "sheetsRequest w = (Inr (), w\<lparr>sheetFaults := fs\<rparr>)"
  by (cases "sheetFaults w"; simp add: sheetsRequest_def; cases "hd (sheetFaults w)"; simp)

lemma valuesUpdate_writes:
  "writes (snd (valuesUpdate sid rn cw w)) = writes w @ [Update sid rn cw]"
  by (simp add: valuesUpdate_def bindM_def sheetsRequest_def split: list.splits)

lemma valuesUpdate_outcome:
  "(\<exists>e. fst (valuesUpdate sid rn cw w) = Inl e) \<or> fst (valuesUpdate sid rn cw w) = Inr ()"
  by (simp add: valuesUpdate_def bindM_def sheetsRequest_def split: list.splits)

lemma valuesUpdate_no_fault:
  "sheetFaults w = [] \<Longrightarrow>
   valuesUpdate sid rn cw w =
     (Inr (), w\<lparr>writes := writes w @ [Update sid rn cw],
                sheets := (sheets w)(sid := setCell (sheets w sid) rn cw)\<rparr>)"
  by (simp add: valuesUpdate_def bindM_def sheetsRequest_def)

lemma valuesGetG_no_fault:
  "sheetFaults w = [] \<Longrightarrow> valuesGetG sid rn w = (Inr (safeStr (cellG (sheets w sid) rn)), w)"
  by (simp add: valuesGetG_def bindM_def sheetsRequest_def)

lemma valuesGetRows_no_fault:
  "sheetFaults w = [] \<Longrightarrow> valuesGetRows sid w = (Inr (take 999 (sheets w sid)), w)"
  by (simp add: valuesGetRows_def bindM_def sheetsRequest_def)

lemma valuesGetG_fault:
  "sheetFaults w = True # fs \<Longrightarrow>
   valuesGetG sid rn w = (Inl (Exn ''sheets_request_failed''), w\<lparr>sheetFaults := fs\<rparr>)"
  by (simp add: valuesGetG_def bindM_def sheetsRequest_def)

lemma valuesGetG_ok:
  "sheetFaults w = False # fs \<Longrightarrow>
   valuesGetG sid rn w = (Inr (safeStr (cellG (sheets w sid) rn)), w\<lparr>sheetFaults := fs\<rparr>)"
  by (simp add: valuesGetG_def bindM_def sheetsRequest_def)

text \<open>Rules for the two predicates on calls, and what the idempotency check returns.\<close>

lemma okM_retM: "okM (retM x)"
  by (simp add: okM_def retM_def)

lemma okM_bindM: "okM m \<Longrightarrow> (\<And>x. okM (f x)) \<Longrightarrow> okM (bindM m f)"
  unfolding okM_def bindM_def by (metis (mono_tags, lifting) case_prod_conv sum.case(2))

lemma okM_valuesUpdate: "okM (valuesUpdate sid rn cw)"
  by (simp add: okM_def valuesUpdate_def bindM_def sheetsRequest_def)

lemma okM_valuesGetG: "okM (valuesGetG sid rn)"
  by (simp add: okM_def valuesGetG_def bindM_def sheetsRequest_def)

lemma okM_writePointerCells: "okM (writePointerCells env sid rn r2Key docToken ai)"
  unfolding writePointerCells_def Let_def
  by (intro okM_bindM okM_valuesUpdate okM_valuesGetG okM_retM) (simp add: okM_valuesUpdate okM_retM split: option.split)

lemma growsM_retM: "growsM (retM x)"
  by (simp add: growsM_def retM_def)

lemma growsM_bindM: "growsM m \<Longrightarrow> (\<And>x. growsM (f x)) \<Longrightarrow> growsM (bindM m f)"
  unfolding growsM_def bindM_def
proof
  fix w
  assume m: "\<forall>w. \<exists>ws. writes (snd (m w)) = writes w @ ws"
    and f: "\<And>x. \<forall>w. \<exists>ws. writes (snd (f x w)) = writes w @ ws"
  obtain r w1 where mw: "m w = (r, w1)" by (cases "m w")
  from m mw obtain ws where ws: "writes w1 = writes w @ ws" by (metis snd_conv)
  show "\<exists>ws. writes (snd (case m w of (Inl e, w1) \<Rightarrow> (Inl e, w1) | (Inr x, w1) \<Rightarrow> f x w1))
             = writes w @ ws"
  proof (cases r)
    case (Inl e)
    with mw ws show ?thesis by simp
  next
    case (Inr x)
    from f[of x] obtain ws2 where "writes (snd (f x w1)) = writes w1 @ ws2" by blast
    with Inr mw ws show ?thesis by simp
  qed
qed

lemma growsM_valuesUpdate: "growsM (valuesUpdate sid rn cw)"
  by (simp add: growsM_def valuesUpdate_writes)

lemma growsM_valuesGetG: "growsM (valuesGetG sid rn)"
  by (simp add: growsM_def valuesGetG_def bindM_def sheetsRequest_def split: list.splits)

lemma growsM_writePointerCells: "growsM (writePointerCells env sid rn r2Key docToken ai)"
  unfolding writePointerCells_def Let_def
  by (intro growsM_bindM growsM_valuesUpdate growsM_valuesGetG growsM_retM) (simp add: growsM_valuesUpdate growsM_retM split: option.split)

lemma bindM_result:
  "fst (bindM m f w) = Inr t \<Longrightarrow> \<exists>x w1. fst (f x w1) = Inr t"
  by (auto simp: bindM_def split: prod.splits sum.splits)

lemma hasTokenAlready_fault:
  "sheetFaults w = True # fs \<Longrightarrow> docToken \<noteq> [] \<Longrightarrow>
   hasTokenAlready sid rn RESUME docToken w = (Inr False, w\<lparr>sheetFaults := fs\<rparr>)"
  by (simp add: hasTokenAlready_def tryCatchM_def bindM_def valuesGetG_fault retM_def)

lemma hasTokenAlready_read:
  "sheetFaults w = [] \<or> (\<exists>fs. sheetFaults w = False # fs) \<Longrightarrow> docToken \<noteq> [] \<Longrightarrow>
   hasTokenAlready sid rn RESUME docToken w =
     (Inr (docToken \<in> set (tokensOf (safeStr (cellG (sheets w sid) rn)))),
      w\<lparr>sheetFaults := tl (sheetFaults w)\<rparr>)"
  by (auto simp add: hasTokenAlready_def tryCatchM_def bindM_def valuesGetG_ok valuesGetG_no_fault retM_def)



lemma tallyApply_non_resume_after_ensure:
  "ensureTodayTallyRow sid (today w) cid w = (Inr er, w1) \<Longrightarrow>
   tallyApply env sid cid NON_RESUME src r2Key docToken ai w =
     bindM (valuesUpdate sid (rowIndex0 er + 2) (WB (currentCount er))) (\<lambda>_.
     bindM (valuesUpdate sid (rowIndex0 er + 2)
              (WC (appendNote (cleanNotes (currentNotes er)) (src @ '':NON_RESUME'')))) (\<lambda>_.
     bindM (valuesUpdate sid (rowIndex0 er + 2) (WD cid)) (\<lambda>_.
     retM \<lparr>tallyToday = today w, nextCount = currentCount er,
           nextNotes = appendNote (cleanNotes (currentNotes er)) (src @ '':NON_RESUME''),
           shouldIncrement = False\<rparr>))) w1"
  by (simp add: tallyApply_def bindM_todayInTZ bindM_Inr hasTokenAlready_def bindM_retM Let_def)


lemma ensure_found:
  assumes "sheetFaults w = []"
    and "findIndex (\<lambda>r. safeStr (colA r) = tday) (take 999 (sheets w sid)) = i"
    and "i \<noteq> - 1"
  shows "ensureTodayTallyRow sid tday cid w =
           (Inr \<lparr>rowIndex0 = i,
                 currentCount = colB (take 999 (sheets w sid) ! nat i),
                 currentNotes = safeStr (colC (take 999 (sheets w sid) ! nat i))\<rparr>, w)"
  using assms
  by (simp add: ensureTodayTallyRow_def bindM_def valuesGetRows_no_fault retM_def Let_def)

lemma update_then_grows:
  assumes "growsM rest"
  shows "\<exists>ws. writes (snd (bindM (valuesUpdate sid rn cw) (\<lambda>_. rest) w))
             = writes w @ Update sid rn cw # ws"
proof -
  obtain r w1 where u: "valuesUpdate sid rn cw w = (r, w1)" by (cases "valuesUpdate sid rn cw w")
  then have w1: "writes w1 = writes w @ [Update sid rn cw]"
    using valuesUpdate_writes [of sid rn cw w] by simp
  show ?thesis
  proof (cases r)
    case (Inl e)
    with u w1 show ?thesis by (simp add: bindM_def)
  next
    case (Inr x)
    from assms obtain ws where "writes (snd (rest w1)) = writes w1 @ ws"
      unfolding growsM_def by blast
    with u w1 Inr show ?thesis by (simp add: bindM_def)
  qed
qed

lemma tallyApply_resume_after_check:
  assumes "ensureTodayTallyRow sid (today w) cid w = (Inr er, w1)"
    and "hasTokenAlready sid (rowIndex0 er + 2) RESUME docToken w1 = (Inr False, w2)"
  shows "tallyApply env sid cid RESUME src r2Key docToken ai w =
     bindM (valuesUpdate sid (rowIndex0 er + 2) (WB (currentCount er + 1))) (\<lambda>_.
     bindM (valuesUpdate sid (rowIndex0 er + 2)
              (WC (appendNote (cleanNotes (currentNotes er)) (src @ '':RESUME'')))) (\<lambda>_.
     bindM (valuesUpdate sid (rowIndex0 er + 2) (WD cid)) (\<lambda>_.
     bindM (if r2Key \<noteq> [] then writePointerCells env sid (rowIndex0 er + 2) r2Key docToken ai
            else retM ()) (\<lambda>_.
     retM \<lparr>tallyToday = today w, nextCount = currentCount er + 1,
           nextNotes = appendNote (cleanNotes (currentNotes er)) (src @ '':RESUME''),
           shouldIncrement = True\<rparr>)))) w2"
  unfolding tallyApply_def bindM_todayInTZ
  apply (subst bindM_Inr [where m = "ensureTodayTallyRow sid (today w) cid" and w = w, OF assms(1)])
  unfolding Let_def
  apply (subst bindM_Inr [where m = "hasTokenAlready sid (rowIndex0 er + 2) RESUME docToken" and w = w1, OF assms(2)])
  by simp

lemma tallyApply_resume_duplicate:
  assumes "ensureTodayTallyRow sid (today w) cid w = (Inr er, w1)"
    and "hasTokenAlready sid (rowIndex0 er + 2) RESUME docToken w1 = (Inr True, w2)"
  shows "tallyApply env sid cid RESUME src r2Key docToken ai w =
     (Inr \<lparr>tallyToday = today w, nextCount = currentCount er,
           nextNotes = appendNote (cleanNotes (currentNotes er)) (src @ '':RESUME''),
           shouldIncrement = False\<rparr>, w2)"
  unfolding tallyApply_def bindM_todayInTZ
  apply (subst bindM_Inr [where m = "ensureTodayTallyRow sid (today w) cid" and w = w, OF assms(1)])
  unfolding Let_def
  apply (subst bindM_Inr [where m = "hasTokenAlready sid (rowIndex0 er + 2) RESUME docToken" and w = w1, OF assms(2)])
  by (simp add: retM_def)

lemma resume_chain_grows:
  "growsM (bindM (valuesUpdate sid rn y) (\<lambda>_.
     bindM (valuesUpdate sid rn z) (\<lambda>_.
     bindM (if r2Key \<noteq> [] then writePointerCells env sid rn r2Key docToken ai else retM ()) (\<lambda>_.
     retM t))))"
  by (intro growsM_bindM growsM_valuesUpdate growsM_retM)
     (simp add: growsM_writePointerCells growsM_retM)

lemma resume_chain_ok:
  "okM (bindM (valuesUpdate sid rn x) (\<lambda>_. bindM (valuesUpdate sid rn y) (\<lambda>_.
     bindM (valuesUpdate sid rn z) (\<lambda>_.
     bindM (if r2Key \<noteq> [] then writePointerCells env sid rn r2Key docToken ai else retM ()) (\<lambda>_.
     retM t)))))"
  by (intro okM_bindM okM_valuesUpdate okM_retM)
     (simp add: okM_writePointerCells okM_retM)

lemma resume_chain_result:
  assumes "fst (bindM a (\<lambda>_. bindM b (\<lambda>_. bindM c (\<lambda>_. bindM d (\<lambda>_. retM t)))) w) = Inr t'"
  shows "t' = t"
proof -
  from bindM_result [OF assms] obtain w1 where
    "fst (bindM b (\<lambda>_. bindM c (\<lambda>_. bindM d (\<lambda>_. retM t))) w1) = Inr t'" by blast
  from bindM_result [OF this] obtain w2 where
    "fst (bindM c (\<lambda>_. bindM d (\<lambda>_. retM t)) w2) = Inr t'" by blast
  from bindM_result [OF this] obtain w3 where
    "fst (bindM d (\<lambda>_. retM t) w3) = Inr t'" by blast
  from bindM_result [OF this] obtain w4 where "fst (retM t w4) = Inr t'" by blast
  then show ?thesis by (simp add: retM_def)
qed

lemma precheck_fault:
  assumes "ensureTodayTallyRow sid (today w) cid w = (Inr er, w1)"
    and "sheetFaults w1 = True # fs"
  shows "fst (alreadyProcessedToday sid cid docToken w) = False"
proof -
  have "bindM (valuesGetG sid (rowIndex0 er + 2))
          (\<lambda>currentCsv. retM (docToken \<in> set (tokensOf currentCsv))) w1
        = (Inl (Exn ''sheets_request_failed''), w1\<lparr>sheetFaults := fs\<rparr>)"
    by (rule bindM_Inl [where m = "valuesGetG sid (rowIndex0 er + 2)" and w = w1]) (rule valuesGetG_fault [OF assms(2)])
  then show ?thesis
    unfolding alreadyProcessedToday_def bindM_todayInTZ
    by (simp add: bindM_Inr [where m = "ensureTodayTallyRow sid (today w) cid" and w = w, OF assms(1)] retM_def)
qed

lemma ensure_found_ok:
  assumes "sheetFaults w = False # fs"
    and "findIndex (\<lambda>r. safeStr (colA r) = tday) (take 999 (sheets w sid)) = i"
    and "i \<noteq> - 1"
  shows "ensureTodayTallyRow sid tday cid w =
           (Inr \<lparr>rowIndex0 = i,
                 currentCount = colB (take 999 (sheets w sid) ! nat i),
                 currentNotes = safeStr (colC (take 999 (sheets w sid) ! nat i))\<rparr>,
            w\<lparr>sheetFaults := fs\<rparr>)"
  using assms
  by (simp add: ensureTodayTallyRow_def bindM_def valuesGetRows_def sheetsRequest_def retM_def
      Let_def)

text \<open>The sample tenant's sheet.\<close>

lemma sample_findIndex:
  "findIndex (\<lambda>r. safeStr (colA r) = today sampleWorld) (take 999 (sheets sampleWorld ''sheet1'')) = 0"
  by (simp add: sampleWorld_def sampleDayRow_def safeStr_def trim_def isWs_def code_def)



lemma sampleWorld_logs: "writes sampleWorld = []" "sheetFaults sampleWorld = []"
  by (simp_all add: sampleWorld_def)


lemma returns_shape:
  assumes "A \<and> (\<forall>t. R = Inr t \<longrightarrow> Q t) \<and> (\<exists>t. R = Inr t) \<and> D"
  shows "(\<exists>t. R = Inr t \<and> Q t) \<and> D"
  using assms by auto

section \<open>Properties used by the pipeline claims\<close>

lemma dropWhile_hd_self: "xs \<noteq> [] \<Longrightarrow> \<not> P (hd xs) \<Longrightarrow> dropWhile P xs = xs"
  by (cases xs) simp_all

lemma trim_idem: "trim (trim s) = trim s"
proof -
  define u where "u = dropWhile isWs s"
  define v where "v = dropWhile isWs (rev u)"
  have t: "trim s = rev v" by (simp add: trim_def u_def v_def)
  have vv: "dropWhile isWs v = v" by (simp add: v_def)
  show ?thesis
  proof (cases "v = []")
    case True
    with t have "trim s = []" by simp
    moreover have "trim [] = []" by (simp add: trim_def)
    ultimately show ?thesis by simp
  next
    case False
    have "rev u = takeWhile isWs (rev u) @ v" by (simp add: v_def)
    then have split: "u = rev v @ rev (takeWhile isWs (rev u))"
      by (metis rev_append rev_rev_ident)
    from False have rv: "rev v \<noteq> []" by simp
    from split rv have une: "u \<noteq> []" by auto
    have "hd (rev v @ rev (takeWhile isWs (rev u))) = hd (rev v)"
      using rv by (rule hd_append2)
    with split have hd: "hd (rev v) = hd u" by simp
    from une have "\<not> isWs (hd u)" unfolding u_def by (rule hd_dropWhile)
    with hd False have "dropWhile isWs (rev v) = rev v"
      by (simp add: dropWhile_hd_self)
    then have "trim (rev v) = rev (dropWhile isWs v)" by (simp add: trim_def)
    with vv t show ?thesis by simp
  qed
qed

lemma safeStr_idem: "safeStr (safeStr s) = safeStr s"
  by (simp add: safeStr_def trim_idem)

lemma findIndex_range:
  "findIndex p xs = i \<Longrightarrow> i \<noteq> - 1 \<Longrightarrow> 0 \<le> i \<and> nat i < length xs \<and> p (xs ! nat i)"
proof (induction xs arbitrary: i)
  case Nil
  then show ?case by simp
next
  case (Cons x xs)
  show ?case
  proof (cases "p x")
    case True
    with Cons.prems show ?thesis by simp
  next
    case False
    define j where "j = findIndex p xs"
    from False Cons.prems have j: "j \<noteq> - 1" and i: "i = j + 1"
      by (auto simp: j_def Let_def split: if_splits)
    from Cons.IH [OF j_def [symmetric] j] have "0 \<le> j" "nat j < length xs" "p (xs ! nat j)"
      by auto
    with i show ?thesis by (simp add: nat_add_distrib)
  qed
qed

lemma setCell_colB_same:
  assumes "2 \<le> rn" and "nat (rn - 2) < length rows" and "n = colB (rows ! nat (rn - 2))"
  shows "map colB (setCell rows rn (WB n)) = map colB rows"
  using assms by (simp add: setCell_def Let_def map_update list_update_same_conv)

lemma setCell_colB_other:
  assumes "2 \<le> rn" and "nat (rn - 2) < length rows" and "\<And>n. cw \<noteq> WB n"
  shows "map colB (setCell rows rn cw) = map colB rows"
  using assms by (cases cw) (auto simp add: setCell_def Let_def map_update list_update_same_conv)

lemma setCell_length:
  assumes "2 \<le> rn" and "nat (rn - 2) < length rows"
  shows "length (setCell rows rn cw) = length rows"
  using assms by (simp add: setCell_def Let_def)

lemma cellG_found:
  assumes "0 \<le> i" and "nat i < length (take 999 rows)"
  shows "cellG rows (i + 2) = colG (take 999 rows ! nat i)"
  using assms by (simp add: cellG_def)

lemma find_Some_mem: "find P xs = Some x \<Longrightarrow> x \<in> set xs"
  by (induction xs) (auto split: if_splits)

text \<open>What the directory read returns, and what the lookup leaves alone.\<close>

lemma readCustomers_cases:
  "(\<exists>e w1. readCustomersFromMasterSheet w = (Inl e, w1) \<and> (\<exists>mf. w1 = w\<lparr>masterFaults := mf\<rparr>))
   \<or> (\<exists>cs w1. readCustomersFromMasterSheet w = (Inr cs, w1) \<and> (\<exists>mf. w1 = w\<lparr>masterFaults := mf\<rparr>)
        \<and> (\<forall>c \<in> set cs. customerId c \<noteq> [] \<and> safeStr (customerId c) = customerId c
              \<and> safeStr (status c) = status c \<and> safeStr (tallySheetId c) = tallySheetId c))"
proof -
  have same: "w\<lparr>masterFaults := masterFaults w\<rparr> = w" by simp
  show ?thesis
  proof (cases "masterFaults w")
    case Nil
    then show ?thesis
      apply (intro disjI2)
      apply (simp add: readCustomersFromMasterSheet_def bindM_def masterRequest_def)
      apply (rule conjI)
       apply (rule exI [of _ "[]"])
      using Nil same apply simp
      by (auto simp: safeStr_idem)
  next
    case (Cons f fs)
    then show ?thesis
      by (cases f) (auto simp: readCustomersFromMasterSheet_def bindM_def masterRequest_def safeStr_idem)
  qed
qed

lemma resolveCustomer_frame:
  "resolveCustomer e w = (r, w1) \<Longrightarrow> \<exists>mf. w1 = w\<lparr>masterFaults := mf\<rparr>"
proof -
  assume a: "resolveCustomer e w = (r, w1)"
  have same: "w = w\<lparr>masterFaults := masterFaults w\<rparr>" by simp
  show ?thesis
  proof (cases "e = []")
    case True
    with a have "w1 = w" by (simp add: resolveCustomer_def)
    with same show ?thesis by metis
  next
    case False
    from readCustomers_cases [of w] a False show ?thesis
      by (auto simp: resolveCustomer_def getCustomersCached_def)
  qed
qed

lemma resolveCustomer_Some:
  assumes "resolveCustomer e w = (Some m, w1)"
  shows "customerId m \<noteq> [] \<and> safeStr (customerId m) = customerId m
         \<and> safeStr (status m) = status m \<and> safeStr (tallySheetId m) = tallySheetId m"
proof -
  from assms have ne: "e \<noteq> []" by (auto simp: resolveCustomer_def split: if_splits)
  from readCustomers_cases [of w] show ?thesis
  proof
    assume "\<exists>e w1. readCustomersFromMasterSheet w = (Inl e, w1) \<and> (\<exists>mf. w1 = w\<lparr>masterFaults := mf\<rparr>)"
    with assms ne show ?thesis by (auto simp: resolveCustomer_def getCustomersCached_def)
  next
    assume "\<exists>cs w1. readCustomersFromMasterSheet w = (Inr cs, w1) \<and> (\<exists>mf. w1 = w\<lparr>masterFaults := mf\<rparr>)
        \<and> (\<forall>c \<in> set cs. customerId c \<noteq> [] \<and> safeStr (customerId c) = customerId c
              \<and> safeStr (status c) = status c \<and> safeStr (tallySheetId c) = tallySheetId c)"
    then obtain cs w2 where r: "readCustomersFromMasterSheet w = (Inr cs, w2)"
      and all: "\<forall>c \<in> set cs. customerId c \<noteq> [] \<and> safeStr (customerId c) = customerId c
              \<and> safeStr (status c) = status c \<and> safeStr (tallySheetId c) = tallySheetId c"
      by blast
    from assms ne r have "find (\<lambda>x. toLowerCase (trim (safeStr (intakeEmail x))) = e) (rev cs) = Some m"
      by (simp add: resolveCustomer_def getCustomersCached_def)
    then have "m \<in> set (rev cs)" by (rule find_Some_mem)
    then have "m \<in> set cs" by simp
    with all show ?thesis by blast
  qed
qed

lemma extracted_text_total:
  "\<exists>raw. (case argExtractedText args of
            Some t \<Rightarrow> Inr t
          | None \<Rightarrow> extractTextFromBuffer (libs env) (argFilename args) (argBuffer args))
         = Inr raw"
  using extract_never_throws [of "libs env" "argFilename args" "argBuffer args"]
  by (cases "argExtractedText args") auto

lemma gate_blocked:
  assumes "toLowerCase (safeStr st) \<in> {''trial_ended'', ''past_due'', ''canceled'', ''unpaid''}"
  shows "isProcessingAllowed (safeStr st) = (False, Some (toLowerCase (safeStr st)))"
  using assms by (auto simp: isProcessingAllowed_def safeStr_idem Let_def)

text \<open>Rules for calls unaffected by a change of the world.\<close>

lemma unaffected_retM: "unaffected u (retM x)"
  by (simp add: unaffected_def retM_def)

lemma unaffected_bindM:
  assumes "unaffected u m" and "\<And>x. unaffected u (f x)"
  shows "unaffected u (bindM m f)"
  unfolding unaffected_def
proof
  fix w
  obtain r w1 where mw: "m w = (r, w1)" by (cases "m w")
  with assms(1) have mu: "m (u w) = (r, u w1)" by (simp add: unaffected_def)
  show "bindM m f (u w) = (fst (bindM m f w), u (snd (bindM m f w)))"
  proof (cases r)
    case (Inl e)
    with mw mu show ?thesis by (simp add: bindM_def)
  next
    case (Inr x)
    from assms(2) [of x] have "f x (u w1) = (fst (f x w1), u (snd (f x w1)))"
      by (simp add: unaffected_def)
    with Inr mw mu show ?thesis by (simp add: bindM_def)
  qed
qed

lemma unaffected_tryCatchM:
  assumes "unaffected u m" and "\<And>e. unaffected u (h e)"
  shows "unaffected u (tryCatchM m h)"
  unfolding unaffected_def
proof
  fix w
  obtain r w1 where mw: "m w = (r, w1)" by (cases "m w")
  with assms(1) have mu: "m (u w) = (r, u w1)" by (simp add: unaffected_def)
  show "tryCatchM m h (u w) = (fst (tryCatchM m h w), u (snd (tryCatchM m h w)))"
  proof (cases r)
    case (Inl e)
    from assms(2) [of e] have "h e (u w1) = (fst (h e w1), u (snd (h e w1)))"
      by (simp add: unaffected_def)
    with Inl mw mu show ?thesis by (simp add: tryCatchM_def)
  next
    case (Inr x)
    with mw mu show ?thesis by (simp add: tryCatchM_def)
  qed
qed

lemma unaffected_seq:
  assumes "unaffected u m" and "\<And>x. unaffected u (f x)"
  shows "unaffected u (\<lambda>w. case m w of (x, w1) \<Rightarrow> f x w1)"
  unfolding unaffected_def
proof
  fix w
  obtain r w1 where mw: "m w = (r, w1)" by (cases "m w")
  with assms(1) have mu: "m (u w) = (r, u w1)" by (simp add: unaffected_def)
  from assms(2) [of r] have "f r (u w1) = (fst (f r w1), u (snd (f r w1)))"
    by (simp add: unaffected_def)
  with mw mu show "(case m (u w) of (x, w1) \<Rightarrow> f x w1)
        = (fst (case m w of (x, w1) \<Rightarrow> f x w1), u (snd (case m w of (x, w1) \<Rightarrow> f x w1)))"
    by simp
qed

lemma unaffected_pure: "unaffected u (\<lambda>w. (x, w))"
  by (simp add: unaffected_def)

lemma neutral_mailU: "neutral (mailU mf ms)"
  by (simp add: neutral_def unaffected_def mailU_def valuesGetRows_def valuesGetG_def
      valuesUpdate_def valuesAppend_def todayInTZ_def bindM_def sheetsRequest_def
      split: list.splits)

lemma neutral_aiU: "neutral (aiU cs)"
  by (simp add: neutral_def unaffected_def aiU_def valuesGetRows_def valuesGetG_def
      valuesUpdate_def valuesAppend_def todayInTZ_def bindM_def sheetsRequest_def
      split: list.splits)

lemma unaffected_ensure:
  assumes "neutral u"
  shows "unaffected u (ensureTodayTallyRow sid tday cid)"
  using assms unfolding ensureTodayTallyRow_def neutral_def Let_def
  by (intro unaffected_bindM) (simp_all add: unaffected_retM unaffected_bindM)

lemma unaffected_hasTokenAlready:
  assumes "neutral u"
  shows "unaffected u (hasTokenAlready sid rn dt docToken)"
  using assms unfolding hasTokenAlready_def neutral_def
  by (simp add: unaffected_retM unaffected_bindM unaffected_tryCatchM)

lemma unaffected_writePointerCells:
  assumes "neutral u"
  shows "unaffected u (writePointerCells env sid rn r2Key docToken ai)"
  using assms unfolding writePointerCells_def neutral_def Let_def
  by (intro unaffected_bindM) (simp_all add: unaffected_retM split: option.split)

lemma unaffected_tallyApply:
  assumes "neutral u"
  shows "unaffected u (tallyApply env sid cid dt src r2Key docToken ai)"
  unfolding tallyApply_def Let_def
  apply (intro unaffected_bindM unaffected_ensure [OF assms] unaffected_hasTokenAlready [OF assms])
  using assms apply (simp add: neutral_def)
  using assms
  by (auto simp add: neutral_def unaffected_retM unaffected_writePointerCells
      intro!: unaffected_bindM)

lemma unaffected_tallyStep:
  assumes "neutral u"
  shows "unaffected u (tallyStep env buf src r2Key dt sheetId cid blocked ai)"
  unfolding unaffected_def
proof
  fix w
  define T where "T = tallyApply env sheetId cid dt src r2Key
                        (''hash:'' @ sha256Hex (libs env) buf) ai"
  from unaffected_tallyApply [OF assms] have eq: "T (u w) = (fst (T w), u (snd (T w)))"
    unfolding T_def unaffected_def by blast
  obtain r w1 where t: "T w = (r, w1)" by (cases "T w")
  with eq have tu: "T (u w) = (r, u w1)" by simp
  show "tallyStep env buf src r2Key dt sheetId cid blocked ai (u w)
        = (fst (tallyStep env buf src r2Key dt sheetId cid blocked ai w),
           u (snd (tallyStep env buf src r2Key dt sheetId cid blocked ai w)))"
    using t tu unfolding tallyStep_def Let_def T_def [symmetric]
    by (cases r) simp_all
qed

lemma unaffected_alreadyProcessedToday:
  assumes "neutral u"
  shows "unaffected u (alreadyProcessedToday sid cid docToken)"
  unfolding unaffected_def
proof
  fix w
  define C where "C = (if sid \<noteq> [] \<and> cid \<noteq> [] \<and> docToken \<noteq> [] then
              bindM todayInTZ (\<lambda>tday.
              bindM (ensureTodayTallyRow sid tday cid) (\<lambda>er.
              bindM (valuesGetG sid (rowIndex0 er + 2)) (\<lambda>currentCsv.
              retM (docToken \<in> set (tokensOf currentCsv)))))
            else retM False)"
  have "unaffected u C"
    unfolding C_def using assms
    by (auto simp add: neutral_def unaffected_retM unaffected_ensure [OF assms]
        intro!: unaffected_bindM)
  then have eq: "C (u w) = (fst (C w), u (snd (C w)))" unfolding unaffected_def by blast
  obtain r w1 where c: "C w = (r, w1)" by (cases "C w")
  with eq have cu: "C (u w) = (r, u w1)" by simp
  show "alreadyProcessedToday sid cid docToken (u w)
        = (fst (alreadyProcessedToday sid cid docToken w),
           u (snd (alreadyProcessedToday sid cid docToken w)))"
    using c cu unfolding alreadyProcessedToday_def C_def [symmetric]
    by (cases r) simp_all
qed

lemma unaffected_scoreResume_mail: "unaffected (mailU mf ms) (scoreResume text)"
  by (simp add: unaffected_def scoreResume_def mailU_def Let_def split: list.splits)

lemma unaffected_safeScoreResume_mail: "unaffected (mailU mf ms) (safeScoreResume text rubric)"
  by (simp add: safeScoreResume_def unaffected_scoreResume_mail split: option.splits)

lemma unaffected_aiScoring_mail:
  "unaffected (mailU mf ms) (aiScoring env buf text tooLarge dt sid cid blocked rubric)"
  unfolding unaffected_def
proof
  fix w
  let ?u = "mailU mf ms"
  define tok where "tok = ''hash:'' @ sha256Hex (libs env) buf"
  define S where "S = safeScoreResume (take (MAX_OPENAI_CHARS env) text) rubric"
  from unaffected_alreadyProcessedToday [OF neutral_mailU, of mf ms sid cid tok]
  have eqA: "alreadyProcessedToday sid cid tok (?u w)
             = (fst (alreadyProcessedToday sid cid tok w),
                ?u (snd (alreadyProcessedToday sid cid tok w)))"
    unfolding unaffected_def by blast
  obtain a w1 where a: "alreadyProcessedToday sid cid tok w = (a, w1)"
    by (cases "alreadyProcessedToday sid cid tok w")
  with eqA have au: "alreadyProcessedToday sid cid tok (?u w) = (a, ?u w1)" by simp
  from unaffected_safeScoreResume_mail [of mf ms]
  have eqS: "S (?u w1) = (fst (S w1), ?u (snd (S w1)))"
    unfolding unaffected_def S_def by blast
  obtain r w2 where s: "S w1 = (r, w2)" by (cases "S w1")
  with eqS have su: "S (?u w1) = (r, ?u w2)" by simp
  show "aiScoring env buf text tooLarge dt sid cid blocked rubric (?u w)
        = (fst (aiScoring env buf text tooLarge dt sid cid blocked rubric w),
           ?u (snd (aiScoring env buf text tooLarge dt sid cid blocked rubric w)))"
    using a au s su unfolding aiScoring_def Let_def tok_def [symmetric] S_def [symmetric]
    by (cases r) simp_all
qed

lemma unaffected_resolveCustomer_mail: "unaffected (mailU mf ms) (resolveCustomer e)"
  by (simp add: unaffected_def resolveCustomer_def getCustomersCached_def
      readCustomersFromMasterSheet_def bindM_def masterRequest_def mailU_def
      split: list.splits)

lemma saveInboundDocToDb_mail:
  "saveInboundDocToDb rec (mailU mf ms w) = mailU mf ms (saveInboundDocToDb rec w)"
  by (simp add: saveInboundDocToDb_def mailU_def Let_def split: list.splits)

lemma unaffected_mail_keeps:
  assumes "\<And>mf ms. unaffected (mailU mf ms) m"
  shows "mails (snd (m w)) = mails w \<and> mailFaults (snd (m w)) = mailFaults w"
proof -
  have same: "mailU (mailFaults w) (mails w) w = w" by (simp add: mailU_def)
  from assms [of "mailFaults w" "mails w"]
  have "m (mailU (mailFaults w) (mails w) w)
        = (fst (m w), mailU (mailFaults w) (mails w) (snd (m w)))"
    unfolding unaffected_def by blast
  then have "snd (m w) = mailU (mailFaults w) (mails w) (snd (m w))"
    unfolding same by (metis snd_conv)
  then have "mails (snd (m w)) = mails (mailU (mailFaults w) (mails w) (snd (m w)))"
    and "mailFaults (snd (m w)) = mailFaults (mailU (mailFaults w) (mails w) (snd (m w)))"
    by simp_all
  then show ?thesis by (simp add: mailU_def)
qed

lemma resultEmail_mails:
  "(\<not> didIncrement tr \<longrightarrow> resultEmail e mt bl dt ai tr w = w)
   \<and> (mails (resultEmail e mt bl dt ai tr w) = mails w
      \<or> (\<exists>m. mails (resultEmail e mt bl dt ai tr w) = mails w @ [m]))"
  by (simp add: resultEmail_def sendCustomerText_def Let_def split: list.splits)
lemma processInboundDoc_phases:
  assumes x: "(case argExtractedText args of Some t \<Rightarrow> Inr t | None \<Rightarrow> extractTextFromBuffer (libs env) (argFilename args) (argBuffer args)) = Inr raw"
    and r: "resolveCustomer (toEmailOf args) w = (match, w1)"
    and a: "aiScoring env (argBuffer args) (extractedTextOf env raw) (extractedTooLargeOf env raw) (docTypeOf args (extractedTextOf env raw)) (sheetIdOf match) (customerIdOf match) (blockedOf match)
              (getCustomerRubric (customerIdOf match) w1) w1 = (ai, w2)"
    and t: "tallyStep env (argBuffer args) (argSource args) (r2KeyOf args) (docTypeOf args (extractedTextOf env raw)) (sheetIdOf match) (customerIdOf match) (blockedOf match) ai w2
            = (tr, w3)"
  shows "processInboundDoc env args w =
           (Inr (resultOf args (extractedTextOf env raw) (docTypeOf args (extractedTextOf env raw)) match ai tr),
            resultEmail (toEmailOf args) (match \<noteq> None) (blockedOf match) (docTypeOf args (extractedTextOf env raw)) ai tr
              (saveInboundDocToDb (auditOf args (extractedTextOf env raw) (docTypeOf args (extractedTextOf env raw)) match ai) w3))"
  unfolding processInboundDoc_def x sum.case Let_def r prod.case a t ..

lemma processInboundDoc_phases_exist:
  obtains raw match w1 ai w2 tr w3 where
    "(case argExtractedText args of Some t \<Rightarrow> Inr t | None \<Rightarrow>
        extractTextFromBuffer (libs env) (argFilename args) (argBuffer args)) = Inr raw"
    "resolveCustomer (toEmailOf args) w = (match, w1)"
    "aiScoring env (argBuffer args) (extractedTextOf env raw) (extractedTooLargeOf env raw)
       (docTypeOf args (extractedTextOf env raw)) (sheetIdOf match) (customerIdOf match)
       (blockedOf match) (getCustomerRubric (customerIdOf match) w1) w1 = (ai, w2)"
    "tallyStep env (argBuffer args) (argSource args) (r2KeyOf args)
       (docTypeOf args (extractedTextOf env raw)) (sheetIdOf match) (customerIdOf match)
       (blockedOf match) ai w2 = (tr, w3)"
proof -
  from extracted_text_total obtain raw where
    x: "(case argExtractedText args of Some t \<Rightarrow> Inr t | None \<Rightarrow>
        extractTextFromBuffer (libs env) (argFilename args) (argBuffer args)) = Inr raw"
    by blast
  obtain match w1 where r: "resolveCustomer (toEmailOf args) w = (match, w1)"
    by (cases "resolveCustomer (toEmailOf args) w")
  obtain ai w2 where a: "aiScoring env (argBuffer args) (extractedTextOf env raw)
       (extractedTooLargeOf env raw)
       (docTypeOf args (extractedTextOf env raw)) (sheetIdOf match) (customerIdOf match)
       (blockedOf match) (getCustomerRubric (customerIdOf match) w1) w1 = (ai, w2)"
    by (cases "aiScoring env (argBuffer args) (extractedTextOf env raw)
       (extractedTooLargeOf env raw)
       (docTypeOf args (extractedTextOf env raw)) (sheetIdOf match) (customerIdOf match)
       (blockedOf match) (getCustomerRubric (customerIdOf match) w1) w1")
  obtain tr w3 where t: "tallyStep env (argBuffer args) (argSource args) (r2KeyOf args)
       (docTypeOf args (extractedTextOf env raw)) (sheetIdOf match) (customerIdOf match)
       (blockedOf match) ai w2 = (tr, w3)"
    by (cases "tallyStep env (argBuffer args) (argSource args) (r2KeyOf args)
       (docTypeOf args (extractedTextOf env raw)) (sheetIdOf match) (customerIdOf match)
       (blockedOf match) ai w2")
  from that [OF x r a t] show ?thesis .
qed

lemma getCustomerRubric_mail:
  "getCustomerRubric cid (mailU mf ms w) = getCustomerRubric cid w"
  by (simp add: getCustomerRubric_def mailU_def)

lemma unaffected_apply:
  "unaffected u m \<Longrightarrow> m w = (x, w1) \<Longrightarrow> m (u w) = (x, u w1)"
  by (simp add: unaffected_def)

lemma mailU_faults_only: "w\<lparr>mailFaults := mf\<rparr> = mailU mf (mails w) w"
  by (simp add: mailU_def)

lemma saveInboundDocToDb_keeps:
  "mails (saveInboundDocToDb rec w) = mails w
   \<and> aiCalls (saveInboundDocToDb rec w) = aiCalls w
   \<and> writes (saveInboundDocToDb rec w) = writes w
   \<and> sheets (saveInboundDocToDb rec w) = sheets w
   \<and> audits (saveInboundDocToDb rec w) = audits w @ [rec]"
  by (simp add: saveInboundDocToDb_def Let_def split: list.splits)

lemma blocked_resolved:
  assumes res: "resolveCustomer e w = (Some m, w1)"
    and st: "toLowerCase (safeStr (status m))
             \<in> {''trial_ended'', ''past_due'', ''canceled'', ''unpaid''}"
  shows "blockedOf (Some m)"
    and "blockedReasonOf (Some m) = Some (toLowerCase (safeStr (status m)))"
proof -
  from resolveCustomer_Some [OF res] have cid: "safeStr (customerId m) \<noteq> []" by simp
  note gate = gate_blocked [OF st]
  show b: "blockedOf (Some m)"
    by (simp add: blockedOf_def customerIdOf_def billingStatusOf_def cid gate)
  show "blockedReasonOf (Some m) = Some (toLowerCase (safeStr (status m)))"
    using b by (simp add: blockedReasonOf_def billingStatusOf_def gate)
qed

text \<open>A duplicate in a ledger that answers: today's row holds the token.\<close>

lemma token_cell_found:
  assumes found: "findIndex (\<lambda>r. safeStr (colA r) = tday) (take 999 rows) = i" "i \<noteq> - 1"
  shows "safeStr (cellG rows (i + 2)) = safeStr (colG (take 999 rows ! nat i))"
proof -
  from findIndex_range [OF found] have "0 \<le> i" "nat i < length (take 999 rows)" by auto
  then show ?thesis by (simp add: cellG_found)
qed

lemma alreadyProcessedToday_found:
  assumes nf: "sheetFaults w = []"
    and ne: "sid \<noteq> []" "cid \<noteq> []" "tok \<noteq> []"
    and found: "findIndex (\<lambda>r. safeStr (colA r) = today w) (take 999 (sheets w sid)) = i"
      "i \<noteq> - 1"
    and tok: "tok \<in> set (tokensOf (safeStr (colG (take 999 (sheets w sid) ! nat i))))"
  shows "alreadyProcessedToday sid cid tok w = (True, w)"
proof -
  note e = ensure_found [OF nf found, of cid]
  have g: "valuesGetG sid (i + 2) w = (Inr (safeStr (colG (take 999 (sheets w sid) ! nat i))), w)"
    using valuesGetG_no_fault [OF nf, of sid "i + 2"] token_cell_found [OF found] by simp
  show ?thesis
    unfolding alreadyProcessedToday_def bindM_todayInTZ
    using ne tok
    by (simp add: bindM_Inr [where m = "ensureTodayTallyRow sid (today w) cid" and w = w, OF e]
        bindM_Inr [where m = "valuesGetG sid (i + 2)" and w = w, OF g] retM_def)
qed

lemma hasTokenAlready_found:
  assumes nf: "sheetFaults w = []"
    and ne: "tok \<noteq> []"
    and found: "findIndex (\<lambda>r. safeStr (colA r) = tday) (take 999 (sheets w sid)) = i"
      "i \<noteq> - 1"
    and tok: "tok \<in> set (tokensOf (safeStr (colG (take 999 (sheets w sid) ! nat i))))"
  shows "hasTokenAlready sid (i + 2) RESUME tok w = (Inr True, w)"
proof -
  have "sheetFaults w = [] \<or> (\<exists>fs. sheetFaults w = False # fs)" using nf by simp
  from hasTokenAlready_read [OF this ne, of sid "i + 2"] tok token_cell_found [OF found] nf
  show ?thesis by simp
qed

lemma tallyApply_found_duplicate:
  assumes nf: "sheetFaults w = []"
    and ne: "tok \<noteq> []"
    and found: "findIndex (\<lambda>r. safeStr (colA r) = today w) (take 999 (sheets w sid)) = i"
      "i \<noteq> - 1"
    and tok: "tok \<in> set (tokensOf (safeStr (colG (take 999 (sheets w sid) ! nat i))))"
  shows "tallyApply env sid cid RESUME src k tok ai w =
     (Inr \<lparr>tallyToday = today w,
           nextCount = colB (take 999 (sheets w sid) ! nat i),
           nextNotes = appendNote (cleanNotes (safeStr (colC (take 999 (sheets w sid) ! nat i))))
                         (src @ '':RESUME''),
           shouldIncrement = False\<rparr>, w)"
proof -
  note e = ensure_found [OF nf found, of cid]
  have h: "hasTokenAlready sid
             (rowIndex0 \<lparr>rowIndex0 = i,
                 currentCount = colB (take 999 (sheets w sid) ! nat i),
                 currentNotes = safeStr (colC (take 999 (sheets w sid) ! nat i))\<rparr> + 2)
             RESUME tok w = (Inr True, w)"
    using hasTokenAlready_found [OF nf ne found tok] by simp
  from tallyApply_resume_duplicate [OF e h, of env src k ai] show ?thesis by simp
qed

lemma aiScoring_found_duplicate:
  assumes nf: "sheetFaults w = []"
    and ne: "sid \<noteq> []" "cid \<noteq> []"
    and found: "findIndex (\<lambda>r. safeStr (colA r) = today w) (take 999 (sheets w sid)) = i"
      "i \<noteq> - 1"
    and tok: "''hash:'' @ sha256Hex (libs env) buf
              \<in> set (tokensOf (safeStr (colG (take 999 (sheets w sid) ! nat i))))"
  shows "\<exists>reason. aiScoring env buf text tooLarge dt sid cid blocked rubric w
                  = (aiSkip reason, w)"
proof -
  have t: "''hash:'' @ sha256Hex (libs env) buf \<noteq> []" by simp
  note a = alreadyProcessedToday_found [OF nf ne t found tok]
  show ?thesis unfolding aiScoring_def Let_def a by auto
qed

lemma three_updates_no_fault:
  assumes nf: "sheetFaults w = []"
  shows "bindM (valuesUpdate sid rn x) (\<lambda>_. bindM (valuesUpdate sid rn y) (\<lambda>_.
           bindM (valuesUpdate sid rn z) (\<lambda>_. retM t))) w
         = (Inr t,
            w\<lparr>writes := writes w @ [Update sid rn x, Update sid rn y, Update sid rn z],
              sheets := (sheets w)
                (sid := setCell (setCell (setCell (sheets w sid) rn x) rn y) rn z)\<rparr>)"
  using nf
  by (simp add: bindM_def retM_def valuesUpdate_def sheetsRequest_def)

lemma tallyApply_found_non_resume:
  assumes nf: "sheetFaults w = []"
    and found: "findIndex (\<lambda>r. safeStr (colA r) = today w) (take 999 (sheets w sid)) = i"
      "i \<noteq> - 1"
  shows "\<exists>t w3. tallyApply env sid cid NON_RESUME src k tok ai w = (Inr t, w3)
           \<and> \<not> shouldIncrement t
           \<and> map colB (sheets w3 sid) = map colB (sheets w sid)
           \<and> mails w3 = mails w \<and> aiCalls w3 = aiCalls w"
proof -
  define rows where "rows = sheets w sid"
  define c where "c = colB (take 999 rows ! nat i)"
  define n where "n = appendNote (cleanNotes (safeStr (colC (take 999 rows ! nat i))))
                        (src @ '':NON_RESUME'')"
  note e = ensure_found [OF nf found, of cid, folded rows_def, folded c_def]
  from findIndex_range [OF found] have i: "0 \<le> i" "nat i < length (take 999 rows)"
    by (auto simp: rows_def)
  then have r: "2 \<le> i + 2" "nat (i + 2 - 2) < length rows" by auto
  from i have cc: "c = colB (rows ! nat (i + 2 - 2))" by (simp add: c_def)
  have b1: "map colB (setCell rows (i + 2) (WB c)) = map colB rows"
    by (rule setCell_colB_same [OF r cc])
  have l1: "nat (i + 2 - 2) < length (setCell rows (i + 2) (WB c))"
    using r by (simp add: setCell_length)
  have b2: "map colB (setCell (setCell rows (i + 2) (WB c)) (i + 2) (WC n)) = map colB rows"
    using setCell_colB_other [OF r(1) l1, of "WC n"] b1 by simp
  have l2: "nat (i + 2 - 2) < length (setCell (setCell rows (i + 2) (WB c)) (i + 2) (WC n))"
    using r l1 by (simp add: setCell_length)
  have b3: "map colB (setCell (setCell (setCell rows (i + 2) (WB c)) (i + 2) (WC n)) (i + 2)
              (WD cid)) = map colB rows"
    using setCell_colB_other [OF r(1) l2, of "WD cid"] b2 by simp
  from tallyApply_non_resume_after_ensure [OF e, of env src k tok ai]
  have "tallyApply env sid cid NON_RESUME src k tok ai w
        = (Inr \<lparr>tallyToday = today w, nextCount = c, nextNotes = n, shouldIncrement = False\<rparr>,
           w\<lparr>writes := writes w @ [Update sid (i + 2) (WB c), Update sid (i + 2) (WC n),
                                  Update sid (i + 2) (WD cid)],
             sheets := (sheets w)
               (sid := setCell (setCell (setCell (sheets w sid) (i + 2) (WB c)) (i + 2) (WC n))
                         (i + 2) (WD cid))\<rparr>)"
    by (simp add: three_updates_no_fault [OF nf] n_def)
  with b3 show ?thesis by (simp add: rows_def)
qed

lemma tallyStep_found_duplicate:
  assumes nf: "sheetFaults w = []"
    and found: "findIndex (\<lambda>r. safeStr (colA r) = today w) (take 999 (sheets w sid)) = i"
      "i \<noteq> - 1"
    and tok: "''hash:'' @ sha256Hex (libs env) buf
              \<in> set (tokensOf (safeStr (colG (take 999 (sheets w sid) ! nat i))))"
  shows "\<exists>tr w3. tallyStep env buf src k dt sid cid blocked ai w = (tr, w3)
           \<and> \<not> didIncrement tr
           \<and> map colB (sheets w3 sid) = map colB (sheets w sid)
           \<and> mails w3 = mails w \<and> aiCalls w3 = aiCalls w
           \<and> (dt = RESUME \<longrightarrow> w3 = w)"
proof (cases "blocked \<or> (skipped ai \<and> reason ai = ''idempotent_skip'') \<or> sid = [] \<or> cid = []")
  case True
  then show ?thesis by (auto simp: tallyStep_def Let_def didIncrement_def)
next
  case False
  then have go: "tallyStep env buf src k dt sid cid blocked ai w
      = (case tallyApply env sid cid dt src k (''hash:'' @ sha256Hex (libs env) buf) ai w of
              (Inl e, w1) \<Rightarrow> (TallyFailed, w1)
            | (Inr t, w1) \<Rightarrow> (TallyDone t, w1))"
    by (auto simp: tallyStep_def Let_def)
  show ?thesis
  proof (cases dt)
    case RESUME
    have t: "''hash:'' @ sha256Hex (libs env) buf \<noteq> []" by simp
    from tallyApply_found_duplicate [OF nf t found tok, of env cid src k ai]
    show ?thesis using go RESUME by (simp add: didIncrement_def)
  next
    case NON_RESUME
    from tallyApply_found_non_resume [OF nf found, of env cid src k
        "''hash:'' @ sha256Hex (libs env) buf" ai]
    show ?thesis using go NON_RESUME by (auto simp add: didIncrement_def)
  qed
qed

section \<open>Properties of the scoring gateway\<close>

text \<open>The scoring gateway and the log of scorer calls.\<close>

lemma unaffected_ai_keeps:
  assumes "\<And>cs. unaffected (aiU cs) m"
  shows "aiCalls (snd (m w)) = aiCalls w"
proof -
  have same: "aiU (aiCalls w) w = w" by (simp add: aiU_def)
  from assms [of "aiCalls w"]
  have "m (aiU (aiCalls w) w) = (fst (m w), aiU (aiCalls w) (snd (m w)))"
    unfolding unaffected_def by blast
  then have "snd (m w) = aiU (aiCalls w) (snd (m w))"
    unfolding same by (metis snd_conv)
  then have "aiCalls (snd (m w)) = aiCalls (aiU (aiCalls w) (snd (m w)))" by simp
  then show ?thesis by (simp add: aiU_def)
qed

lemma alreadyProcessedToday_aiCalls:
  "aiCalls (snd (alreadyProcessedToday sid cid tok w)) = aiCalls w"
  by (rule unaffected_ai_keeps) (rule unaffected_alreadyProcessedToday [OF neutral_aiU])

lemma tallyStep_aiCalls:
  "aiCalls (snd (tallyStep env buf src k dt sid cid blocked ai w)) = aiCalls w"
  by (rule unaffected_ai_keeps) (rule unaffected_tallyStep [OF neutral_aiU])

lemma resolveCustomer_aiCalls: "resolveCustomer e w = (r, w1) \<Longrightarrow> aiCalls w1 = aiCalls w"
  using resolveCustomer_frame [of e w r w1] by auto

lemma resultEmail_aiCalls: "aiCalls (resultEmail e mt bl dt ai tr w) = aiCalls w"
  by (simp add: resultEmail_def sendCustomerText_def Let_def split: list.splits)

text \<open>What is sent to the scorer for a text and a rubric.\<close>

lemma safeScoreResume_calls:
  "\<exists>pre. aiCalls (snd (safeScoreResume text rubric w)) = aiCalls w @ [pre @ text]"
proof (cases "rubric = None \<or> rubric = Some []")
  case True
  then have "aiCalls (snd (safeScoreResume text rubric w)) = aiCalls w @ [[] @ text]"
    by (auto simp: safeScoreResume_def scoreResume_def Let_def split: list.splits)
  then show ?thesis by blast
next
  case False
  then obtain b where b: "rubric = Some b" "b \<noteq> []" by (cases rubric) auto
  then have "aiCalls (snd (safeScoreResume text rubric w))
             = aiCalls w @ [(''RUBRIC (customer scoring criteria):'' @ [nl] @ b @ [nl, nl]) @ text]"
    by (simp add: safeScoreResume_def scoreResume_def Let_def split: list.splits)
  then show ?thesis by blast
qed

lemma aiScoring_skip_cases:
  assumes "blocked \<or> dt \<noteq> RESUME \<or> \<not> 40 < length (trim text) \<or> tooLarge"
  shows "aiScoring env buf text tooLarge dt sid cid blocked rubric w =
           (aiSkip (if blocked then ''billing_block''
                    else if dt = RESUME \<and> 40 < length (trim text) then ''too_large''
                    else if dt \<noteq> RESUME then ''non_resume'' else ''too_short''), w)"
  using assms by (auto simp: aiScoring_def)

lemma aiScoring_gate:
  assumes "\<not> blocked" "dt = RESUME" "40 < length (trim text)" "\<not> tooLarge"
    and "alreadyProcessedToday sid cid (''hash:'' @ sha256Hex (libs env) buf) w = (already, w1)"
  shows "aiScoring env buf text tooLarge dt sid cid blocked rubric w =
           (if 120 \<le> length text then
              (if already then (aiSkip ''idempotent_skip'', w1)
               else (case safeScoreResume (take (MAX_OPENAI_CHARS env) text) rubric w1 of
                       (Inl e, w2) \<Rightarrow> (aiFailed, w2)
                     | (Inr ai, w2) \<Rightarrow> (ai, w2)))
            else (aiSkip ''too_short'', w1))"
  using assms by (auto simp: aiScoring_def Let_def)

lemma aiScoring_calls:
  "aiCalls (snd (aiScoring env buf text tooLarge dt sid cid blocked rubric w)) = aiCalls w
   \<or> (\<exists>pre. aiCalls (snd (aiScoring env buf text tooLarge dt sid cid blocked rubric w))
            = aiCalls w @ [pre @ take (MAX_OPENAI_CHARS env) text])"
proof (cases "blocked \<or> dt \<noteq> RESUME \<or> \<not> 40 < length (trim text) \<or> tooLarge")
  case True
  from aiScoring_skip_cases [OF True] show ?thesis by simp
next
  case False
  obtain already w1 where
    a: "alreadyProcessedToday sid cid (''hash:'' @ sha256Hex (libs env) buf) w = (already, w1)"
    by (cases "alreadyProcessedToday sid cid (''hash:'' @ sha256Hex (libs env) buf) w")
  with alreadyProcessedToday_aiCalls [of sid cid "''hash:'' @ sha256Hex (libs env) buf" w]
  have c1: "aiCalls w1 = aiCalls w" by simp
  from False have g: "\<not> blocked" "dt = RESUME" "40 < length (trim text)" "\<not> tooLarge"
    by auto
  note eq = aiScoring_gate [OF g a, of rubric]
  from safeScoreResume_calls [of "take (MAX_OPENAI_CHARS env) text" rubric w1]
  obtain pre where
    s: "aiCalls (snd (safeScoreResume (take (MAX_OPENAI_CHARS env) text) rubric w1))
        = aiCalls w1 @ [pre @ take (MAX_OPENAI_CHARS env) text]" by blast
  obtain r w2 where
    sr: "safeScoreResume (take (MAX_OPENAI_CHARS env) text) rubric w1 = (r, w2)"
    by (cases "safeScoreResume (take (MAX_OPENAI_CHARS env) text) rubric w1")
  with s have s2: "aiCalls w2 = aiCalls w @ [pre @ take (MAX_OPENAI_CHARS env) text]"
    by (simp add: c1)
  show ?thesis
  proof (cases "120 \<le> length text \<and> \<not> already")
    case True
    with eq sr s2 have "aiCalls (snd (aiScoring env buf text tooLarge dt sid cid blocked rubric w))
        = aiCalls w @ [pre @ take (MAX_OPENAI_CHARS env) text]"
      by (cases r) simp_all
    then show ?thesis by blast
  next
    case False
    with eq c1 show ?thesis by auto
  qed
qed

lemma aiScoring_scores:
  assumes "\<not> blocked" "dt = RESUME" "40 < length (trim text)" "\<not> tooLarge"
    and "\<not> fst (alreadyProcessedToday sid cid (''hash:'' @ sha256Hex (libs env) buf) w)"
    and "120 \<le> length text"
  shows "\<exists>pre. aiCalls (snd (aiScoring env buf text tooLarge dt sid cid blocked rubric w))
            = aiCalls w @ [pre @ take (MAX_OPENAI_CHARS env) text]"
proof -
  obtain already w1 where
    a: "alreadyProcessedToday sid cid (''hash:'' @ sha256Hex (libs env) buf) w = (already, w1)"
    by (cases "alreadyProcessedToday sid cid (''hash:'' @ sha256Hex (libs env) buf) w")
  with assms(5) have na: "\<not> already" by simp
  from a alreadyProcessedToday_aiCalls [of sid cid "''hash:'' @ sha256Hex (libs env) buf" w]
  have c1: "aiCalls w1 = aiCalls w" by simp
  note eq = aiScoring_gate [OF assms(1-4) a, of rubric]
  from safeScoreResume_calls [of "take (MAX_OPENAI_CHARS env) text" rubric w1]
  obtain pre where
    s: "aiCalls (snd (safeScoreResume (take (MAX_OPENAI_CHARS env) text) rubric w1))
        = aiCalls w1 @ [pre @ take (MAX_OPENAI_CHARS env) text]" by blast
  obtain r w2 where
    sr: "safeScoreResume (take (MAX_OPENAI_CHARS env) text) rubric w1 = (r, w2)"
    by (cases "safeScoreResume (take (MAX_OPENAI_CHARS env) text) rubric w1")
  with s have s2: "aiCalls w2 = aiCalls w @ [pre @ take (MAX_OPENAI_CHARS env) text]"
    by (simp add: c1)
  from eq sr s2 na assms(6)
  have "aiCalls (snd (aiScoring env buf text tooLarge dt sid cid blocked rubric w))
        = aiCalls w @ [pre @ take (MAX_OPENAI_CHARS env) text]"
    by (cases r) simp_all
  then show ?thesis by blast
qed

lemma aiScoring_too_short:
  assumes "\<not> blocked" "dt = RESUME" "40 < length (trim text)" "\<not> tooLarge"
    and "length text < 120"
  shows "fst (aiScoring env buf text tooLarge dt sid cid blocked rubric w) = aiSkip ''too_short''
         \<and> aiCalls (snd (aiScoring env buf text tooLarge dt sid cid blocked rubric w)) = aiCalls w"
proof -
  obtain already w1 where
    a: "alreadyProcessedToday sid cid (''hash:'' @ sha256Hex (libs env) buf) w = (already, w1)"
    by (cases "alreadyProcessedToday sid cid (''hash:'' @ sha256Hex (libs env) buf) w")
  from a alreadyProcessedToday_aiCalls [of sid cid "''hash:'' @ sha256Hex (libs env) buf" w]
  have c1: "aiCalls w1 = aiCalls w" by simp
  from aiScoring_gate [OF assms(1-4) a, of rubric] assms(5) c1 show ?thesis by simp
qed

lemma alreadyProcessedToday_found_value:
  assumes nf: "sheetFaults w = []"
    and ne: "sid \<noteq> []" "cid \<noteq> []" "tok \<noteq> []"
    and found: "findIndex (\<lambda>r. safeStr (colA r) = today w) (take 999 (sheets w sid)) = i"
      "i \<noteq> - 1"
  shows "alreadyProcessedToday sid cid tok w
         = (tok \<in> set (tokensOf (safeStr (colG (take 999 (sheets w sid) ! nat i)))), w)"
proof -
  note e = ensure_found [OF nf found, of cid]
  have g: "valuesGetG sid (i + 2) w = (Inr (safeStr (colG (take 999 (sheets w sid) ! nat i))), w)"
    using valuesGetG_no_fault [OF nf, of sid "i + 2"] token_cell_found [OF found] by simp
  show ?thesis
    unfolding alreadyProcessedToday_def bindM_todayInTZ
    using ne
    by (simp add: bindM_Inr [where m = "ensureTodayTallyRow sid (today w) cid" and w = w, OF e]
        bindM_Inr [where m = "valuesGetG sid (i + 2)" and w = w, OF g] retM_def)
qed

lemma pipeline_aiCalls:
  assumes x: "(case argExtractedText args of Some t \<Rightarrow> Inr t | None \<Rightarrow>
        extractTextFromBuffer (libs env) (argFilename args) (argBuffer args)) = Inr raw"
    and r: "resolveCustomer (toEmailOf args) w = (match, w1)"
    and a: "aiScoring env (argBuffer args) (extractedTextOf env raw) (extractedTooLargeOf env raw)
       (docTypeOf args (extractedTextOf env raw)) (sheetIdOf match) (customerIdOf match)
       (blockedOf match) (getCustomerRubric (customerIdOf match) w1) w1 = (ai, w2)"
  shows "\<exists>tr w5. processInboundDoc env args w
            = (Inr (resultOf args (extractedTextOf env raw)
                      (docTypeOf args (extractedTextOf env raw)) match ai tr), w5)
          \<and> aiCalls w5 = aiCalls w2 \<and> aiCalls w1 = aiCalls w"
proof -
  obtain tr w3 where t: "tallyStep env (argBuffer args) (argSource args) (r2KeyOf args)
       (docTypeOf args (extractedTextOf env raw)) (sheetIdOf match) (customerIdOf match)
       (blockedOf match) ai w2 = (tr, w3)"
    by (cases "tallyStep env (argBuffer args) (argSource args) (r2KeyOf args)
       (docTypeOf args (extractedTextOf env raw)) (sheetIdOf match) (customerIdOf match)
       (blockedOf match) ai w2")
  from tallyStep_aiCalls [of env "argBuffer args" "argSource args" "r2KeyOf args"
      "docTypeOf args (extractedTextOf env raw)" "sheetIdOf match" "customerIdOf match"
      "blockedOf match" ai w2] t
  have c3: "aiCalls w3 = aiCalls w2" by simp
  note run = processInboundDoc_phases [OF x r a t]
  have "aiCalls (resultEmail (toEmailOf args) (match \<noteq> None) (blockedOf match)
               (docTypeOf args (extractedTextOf env raw)) ai tr
               (saveInboundDocToDb
                  (auditOf args (extractedTextOf env raw)
                     (docTypeOf args (extractedTextOf env raw)) match ai) w3)) = aiCalls w2"
    by (simp add: resultEmail_aiCalls saveInboundDocToDb_keeps c3)
  with run resolveCustomer_aiCalls [OF r] show ?thesis by blast
qed

lemma aiScoring_scores_plain:
  assumes "\<not> blocked" "dt = RESUME" "40 < length (trim body)" "\<not> tooLarge"
    and "\<not> fst (alreadyProcessedToday sid cid (''hash:'' @ sha256Hex (libs env) buf) w)"
    and "120 \<le> length body"
  shows "aiCalls (snd (aiScoring env buf body tooLarge dt sid cid blocked None w))
         = aiCalls w @ [take (MAX_OPENAI_CHARS env) body]"
proof -
  obtain already w1 where
    a: "alreadyProcessedToday sid cid (''hash:'' @ sha256Hex (libs env) buf) w = (already, w1)"
    by (cases "alreadyProcessedToday sid cid (''hash:'' @ sha256Hex (libs env) buf) w")
  with assms(5) have na: "\<not> already" by simp
  from a alreadyProcessedToday_aiCalls [of sid cid "''hash:'' @ sha256Hex (libs env) buf" w]
  have c1: "aiCalls w1 = aiCalls w" by simp
  note eq = aiScoring_gate [OF assms(1-4) a, of None]
  obtain r w2 where
    sr: "safeScoreResume (take (MAX_OPENAI_CHARS env) body) None w1 = (r, w2)"
    by (cases "safeScoreResume (take (MAX_OPENAI_CHARS env) body) None w1")
  then have s2: "aiCalls w2 = aiCalls w @ [take (MAX_OPENAI_CHARS env) body]"
    using c1 by (auto simp: safeScoreResume_def scoreResume_def Let_def split: list.splits if_splits)
  from eq sr s2 na assms(6) show ?thesis by (cases r) simp_all
qed

text \<open>The scorer calls of a whole run.\<close>

lemma pipeline_scores:
  assumes x: "(case argExtractedText args of Some t \<Rightarrow> Inr t | None \<Rightarrow>
        extractTextFromBuffer (libs env) (argFilename args) (argBuffer args)) = Inr raw"
    and r: "resolveCustomer (toEmailOf args) w = (match, w1)"
    and g: "\<not> blockedOf match" "docTypeOf args (extractedTextOf env raw) = RESUME"
      "40 < length (trim (extractedTextOf env raw))" "\<not> extractedTooLargeOf env raw"
    and nd: "\<not> fst (alreadyProcessedToday (sheetIdOf match) (customerIdOf match)
                     (''hash:'' @ sha256Hex (libs env) (argBuffer args)) w1)"
    and len: "120 \<le> length (extractedTextOf env raw)"
  shows "\<exists>pre. aiCalls (snd (processInboundDoc env args w))
               = aiCalls w @ [pre @ take (MAX_OPENAI_CHARS env) (extractedTextOf env raw)]"
    and "getCustomerRubric (customerIdOf match) w1 = None \<Longrightarrow>
         aiCalls (snd (processInboundDoc env args w))
           = aiCalls w @ [take (MAX_OPENAI_CHARS env) (extractedTextOf env raw)]"
proof -
  define A where "A = aiScoring env (argBuffer args) (extractedTextOf env raw)
       (extractedTooLargeOf env raw)
       (docTypeOf args (extractedTextOf env raw)) (sheetIdOf match) (customerIdOf match)
       (blockedOf match) (getCustomerRubric (customerIdOf match) w1) w1"
  obtain ai w2 where a: "A = (ai, w2)" by (cases A)
  from pipeline_aiCalls [OF x r a [unfolded A_def]]
  have c: "aiCalls (snd (processInboundDoc env args w)) = aiCalls w2" "aiCalls w1 = aiCalls w"
    by auto
  from aiScoring_scores [OF g nd len, of "getCustomerRubric (customerIdOf match) w1"] a
  have "\<exists>pre. aiCalls w2
               = aiCalls w1 @ [pre @ take (MAX_OPENAI_CHARS env) (extractedTextOf env raw)]"
    unfolding A_def by simp
  with c show "\<exists>pre. aiCalls (snd (processInboundDoc env args w))
               = aiCalls w @ [pre @ take (MAX_OPENAI_CHARS env) (extractedTextOf env raw)]"
    by simp
  assume "getCustomerRubric (customerIdOf match) w1 = None"
  with aiScoring_scores_plain [OF g nd len] a
  have "aiCalls w2 = aiCalls w1 @ [take (MAX_OPENAI_CHARS env) (extractedTextOf env raw)]"
    unfolding A_def by simp
  with c show "aiCalls (snd (processInboundDoc env args w))
           = aiCalls w @ [take (MAX_OPENAI_CHARS env) (extractedTextOf env raw)]"
    by simp
qed

lemma pipeline_too_short:
  assumes x: "(case argExtractedText args of Some t \<Rightarrow> Inr t | None \<Rightarrow>
        extractTextFromBuffer (libs env) (argFilename args) (argBuffer args)) = Inr raw"
    and r: "resolveCustomer (toEmailOf args) w = (match, w1)"
    and g: "\<not> blockedOf match" "docTypeOf args (extractedTextOf env raw) = RESUME"
      "40 < length (trim (extractedTextOf env raw))" "\<not> extractedTooLargeOf env raw"
    and len: "length (extractedTextOf env raw) < 120"
  shows "\<exists>r w5. processInboundDoc env args w = (Inr r, w5)
           \<and> resAi r = aiSkip ''too_short'' \<and> aiCalls w5 = aiCalls w"
proof -
  define A where "A = aiScoring env (argBuffer args) (extractedTextOf env raw)
       (extractedTooLargeOf env raw)
       (docTypeOf args (extractedTextOf env raw)) (sheetIdOf match) (customerIdOf match)
       (blockedOf match) (getCustomerRubric (customerIdOf match) w1) w1"
  obtain ai w2 where a: "A = (ai, w2)" by (cases A)
  from aiScoring_too_short [OF g len, of env "argBuffer args" "sheetIdOf match"
      "customerIdOf match" "getCustomerRubric (customerIdOf match) w1" w1] a
  have s: "ai = aiSkip ''too_short''" "aiCalls w2 = aiCalls w1"
    unfolding A_def by simp_all
  from pipeline_aiCalls [OF x r a [unfolded A_def]] s
  show ?thesis by (auto simp: resultOf_def)
qed

lemma classified_resume_long:
  assumes "classifyDocTypeFromText t = RESUME"
  shows "80 \<le> length (trim t)"
proof -
  from assms have "\<not> length (filter isLowerAZ (toLowerCase t)) < 80"
    by (auto simp: classifyDocTypeFromText_def Let_def split: if_splits)
  then have l: "80 \<le> length (filter isAZaz t)"
    by (simp add: letters_toLowerCase)
  have nw: "isAZaz c \<Longrightarrow> \<not> isWs c" for c
    by (auto simp: isAZaz_def isWs_def)
  have d: "filter isAZaz (dropWhile isWs s) = filter isAZaz s" for s
    by (induction s) (auto dest: nw)
  have "filter isAZaz (trim t) = rev (filter isAZaz (dropWhile isWs (rev (dropWhile isWs t))))"
    by (simp add: trim_def rev_filter)
  also have "\<dots> = filter isAZaz t"
    by (simp add: d rev_filter [symmetric])
  finally have "length (filter isAZaz t) = length (filter isAZaz (trim t))" by simp
  also have "\<dots> \<le> length (trim t)" by (rule length_filter_le)
  finally show ?thesis using l by simp
qed

lemma pipeline_result:
  assumes x: "(case argExtractedText args of Some t \<Rightarrow> Inr t | None \<Rightarrow>
        extractTextFromBuffer (libs env) (argFilename args) (argBuffer args)) = Inr raw"
    and r: "resolveCustomer (toEmailOf args) w = (match, w1)"
    and run: "processInboundDoc env args w = (Inr res, w5)"
  shows "resBlocked res = blockedOf match
         \<and> resDocType res = docTypeOf args (extractedTextOf env raw)"
proof -
  define A where "A = aiScoring env (argBuffer args) (extractedTextOf env raw)
       (extractedTooLargeOf env raw)
       (docTypeOf args (extractedTextOf env raw)) (sheetIdOf match) (customerIdOf match)
       (blockedOf match) (getCustomerRubric (customerIdOf match) w1) w1"
  obtain ai w2 where a: "A = (ai, w2)" by (cases A)
  from pipeline_aiCalls [OF x r a [unfolded A_def]] run show ?thesis
    by (auto simp: resultOf_def)
qed

text \<open>Exactly when the scorer is called, and with what.\<close>

lemma safeScoreResume_calls_exact:
  "aiCalls (snd (safeScoreResume text rubric w))
   = aiCalls w @ [(case rubric of
                     None \<Rightarrow> []
                   | Some rb \<Rightarrow> if rb = [] then []
                               else ''RUBRIC (customer scoring criteria):'' @ [nl] @ rb @ [nl, nl])
                  @ text]"
  by (auto simp: safeScoreResume_def scoreResume_def Let_def split: option.splits list.splits)

lemma aiScoring_calls_exact:
  "aiCalls (snd (aiScoring env buf body tooLarge dt sid cid blocked rubric w)) =
     (if \<not> tooLarge \<and> \<not> blocked \<and> dt = RESUME \<and> 40 < length (trim body)
         \<and> 120 \<le> length body
         \<and> \<not> fst (alreadyProcessedToday sid cid (''hash:'' @ sha256Hex (libs env) buf) w)
      then aiCalls w @ [(case rubric of
                           None \<Rightarrow> []
                         | Some rb \<Rightarrow> if rb = [] then []
                                     else ''RUBRIC (customer scoring criteria):'' @ [nl] @ rb
                                          @ [nl, nl])
                        @ take (MAX_OPENAI_CHARS env) body]
      else aiCalls w)"
proof (cases "blocked \<or> dt \<noteq> RESUME \<or> \<not> 40 < length (trim body) \<or> tooLarge")
  case True
  from aiScoring_skip_cases [OF True, of env buf sid cid rubric w] True
  show ?thesis by auto
next
  case False
  obtain already w1 where
    a: "alreadyProcessedToday sid cid (''hash:'' @ sha256Hex (libs env) buf) w = (already, w1)"
    by (cases "alreadyProcessedToday sid cid (''hash:'' @ sha256Hex (libs env) buf) w")
  with alreadyProcessedToday_aiCalls [of sid cid "''hash:'' @ sha256Hex (libs env) buf" w]
  have c1: "aiCalls w1 = aiCalls w" by simp
  from False have g: "\<not> blocked" "dt = RESUME" "40 < length (trim body)" "\<not> tooLarge"
    by auto
  note eq = aiScoring_gate [OF g a, of rubric]
  note s = safeScoreResume_calls_exact [of "take (MAX_OPENAI_CHARS env) body" rubric w1]
  obtain r w2 where
    sr: "safeScoreResume (take (MAX_OPENAI_CHARS env) body) rubric w1 = (r, w2)"
    by (cases "safeScoreResume (take (MAX_OPENAI_CHARS env) body) rubric w1")
  show ?thesis
  proof (cases "120 \<le> length body \<and> \<not> already")
    case True
    with eq sr have "aiCalls (snd (aiScoring env buf body tooLarge dt sid cid blocked rubric w))
        = aiCalls w2" by (cases r) simp_all
    with s sr c1 True g a show ?thesis by simp
  next
    case False
    with eq c1 have "aiCalls (snd (aiScoring env buf body tooLarge dt sid cid blocked rubric w))
        = aiCalls w" by auto
    with False g a show ?thesis by auto
  qed
qed

section \<open>Facts about the sample inputs\<close>

lemma trim_id:
  assumes "s \<noteq> []" "\<not> isWs (hd s)" "\<not> isWs (last s)"
  shows "trim s = s"
proof -
  from assms(1,2) have d: "dropWhile isWs s = s" by (rule dropWhile_hd_self)
  from assms(1) have "rev s \<noteq> []" and "hd (rev s) = last s" by (simp_all add: hd_rev)
  with assms(3) have "dropWhile isWs (rev s) = rev s" by (simp add: dropWhile_hd_self)
  with d show ?thesis by (simp add: trim_def)
qed

lemma sample_find:
  "find (\<lambda>x. toLowerCase (trim (safeStr (intakeEmail x))) = toEmailOf sampleArgs)
     (rev (filter (\<lambda>c. customerId c \<noteq> [])
        (map (\<lambda>row. \<lparr>customerId = safeStr (customerId row),
                             companyName = safeStr (companyName row),
                             adminEmail = safeStr (adminEmail row),
                             intakeEmail = safeStr (intakeEmail row),
                             status = safeStr (status row),
                             tallySheetId = safeStr (tallySheetId row)\<rparr>)
                  [sampleCustomer]))) = Some sampleCustomer"
  by code_simp

lemma sample_toEmail: "toEmailOf sampleArgs \<noteq> []"
  by code_simp

lemma sample_resolve:
  assumes "masterRows w = [sampleCustomer]" "masterFaults w = []"
  shows "resolveCustomer (toEmailOf sampleArgs) w = (Some sampleCustomer, w)"
  unfolding resolveCustomer_def getCustomersCached_def readCustomersFromMasterSheet_def
    bindM_def masterRequest_def assms
  by (simp only: assms sample_find sample_toEmail list.case prod.case sum.case if_True
      if_False simp_thms)

lemma sample_customer:
  "customerIdOf (Some sampleCustomer) = ''cust_acme''"
  "sheetIdOf (Some sampleCustomer) = ''sheet1''"
  "\<not> blockedOf (Some sampleCustomer)"
  by code_simp+

lemma sample_token: "''hash:'' @ sha256Hex (libs sampleEnv) [] = ''hash:9f86d081884c7d65''"
  by (simp add: sampleEnv_def sampleLibs_def)

lemma sampleResume_length: "length sampleResume = 130"
  by (simp add: sampleResume_def)

lemma sampleResume_ends: "hd sampleResume = CHR ''W''" "sampleResume \<noteq> []"
  by (simp_all add: sampleResume_def)

lemma not_isWs_W: "\<not> isWs CHR ''W''"
  by (simp add: isWs_def code_def)

lemma not_isWs_x: "\<not> isWs CHR ''x''"
  by (simp add: isWs_def code_def)

lemma padded_trim: "0 < n \<Longrightarrow> trim (sampleResume @ replicate n CHR ''x'') = sampleResume @ replicate n CHR ''x''"
  by (rule trim_id) (simp_all add: sampleResume_ends not_isWs_W not_isWs_x)

lemma freshDayWorld_fields:
  "sheetFaults freshDayWorld = []" "masterRows freshDayWorld = [sampleCustomer]"
  "masterFaults freshDayWorld = []" "aiCalls freshDayWorld = []"
  "rubrics freshDayWorld = (\<lambda>cid. None)" "today freshDayWorld = ''2026-01-15''"
  by (simp_all add: freshDayWorld_def sampleWorld_def)

lemma freshDayWorld_findIndex:
  "findIndex (\<lambda>r. safeStr (colA r) = today freshDayWorld)
     (take 999 (sheets freshDayWorld ''sheet1'')) = 0"
  by (simp add: freshDayWorld_def sampleWorld_def sampleDayRow_def safeStr_def trim_def isWs_def
      code_def)

lemma freshDayWorld_not_processed:
  "\<not> fst (alreadyProcessedToday ''sheet1'' ''cust_acme'' ''hash:9f86d081884c7d65'' freshDayWorld)"
proof -
  have g: "tokensOf (safeStr (colG (take 999 (sheets freshDayWorld ''sheet1'') ! nat 0))) = []"
    by (simp add: freshDayWorld_def sampleWorld_def tokensOf_def safeStr_def trim_def)
  from alreadyProcessedToday_found_value [OF freshDayWorld_fields(1) _ _ _ freshDayWorld_findIndex,
      of "''cust_acme''" "''hash:9f86d081884c7d65''"] g
  show ?thesis by simp
qed

lemma resume120_facts:
  "classifyDocTypeFromText resume120 = RESUME" "length resume120 = 120"
  by code_simp+

lemma resume119_facts:
  "classifyDocTypeFromText resume119 = RESUME" "length resume119 = 119"
  by code_simp+

lemma sample_args_variants:
  "toEmailOf (sampleArgs\<lparr>argExtractedText := e\<rparr>) = toEmailOf sampleArgs"
  "argBuffer (sampleArgs\<lparr>argExtractedText := e\<rparr>) = []"
  "argDocType (sampleArgs\<lparr>argExtractedText := e\<rparr>) = Some RESUME"
  "(case argExtractedText (sampleArgs\<lparr>argExtractedText := Some t\<rparr>) of
      Some t \<Rightarrow> Inr t
    | None \<Rightarrow> extractTextFromBuffer (libs env)
                (argFilename (sampleArgs\<lparr>argExtractedText := Some t\<rparr>))
                (argBuffer (sampleArgs\<lparr>argExtractedText := Some t\<rparr>))) = Inr t"
  by (simp_all add: sampleArgs_def toEmailOf_def)

lemma sampleEnv_caps:
  "MAX_EXTRACTED_CHARS sampleEnv = 120000" "MAX_OPENAI_CHARS sampleEnv = 60000"
  by (simp_all add: sampleEnv_def)

lemma freshDayWorld_resolve:
  "resolveCustomer (toEmailOf sampleArgs) freshDayWorld = (Some sampleCustomer, freshDayWorld)"
  by (rule sample_resolve [OF freshDayWorld_fields(2,3)])

lemma freshDayWorld_fresh:
  "\<not> fst (alreadyProcessedToday (sheetIdOf (Some sampleCustomer))
           (customerIdOf (Some sampleCustomer))
           (''hash:'' @ sha256Hex (libs sampleEnv) []) freshDayWorld)"
  unfolding sample_customer sample_token by (rule freshDayWorld_not_processed)

lemma freshDayWorld_rubric:
  "getCustomerRubric (customerIdOf (Some sampleCustomer)) freshDayWorld = None"
  by (simp add: getCustomerRubric_def freshDayWorld_fields)

text \<open>A submission of the sample tenant with another text, in the world without token.\<close>

lemma variant_run:
  fixes t :: string
  defines "a \<equiv> sampleArgs\<lparr>argExtractedText := Some t\<rparr>"
  shows "(case argExtractedText a of
            Some t \<Rightarrow> Inr t
          | None \<Rightarrow> extractTextFromBuffer (libs env) (argFilename a) (argBuffer a)) = Inr t"
    and "resolveCustomer (toEmailOf a) freshDayWorld = (Some sampleCustomer, freshDayWorld)"
    and "argDocType a = None \<or> argDocType a = Some RESUME"
    and "docTypeOf a body = RESUME"
    and "\<not> fst (alreadyProcessedToday (sheetIdOf (Some sampleCustomer))
                 (customerIdOf (Some sampleCustomer))
                 (''hash:'' @ sha256Hex (libs sampleEnv) (argBuffer a)) freshDayWorld)"
  unfolding a_def
  using freshDayWorld_resolve freshDayWorld_fresh
  by (simp_all add: sample_args_variants docTypeOf_def)

lemma longResume_facts:
  "length longResume = 60030"
  "\<not> extractedTooLargeOf sampleEnv longResume"
  "extractedTextOf sampleEnv longResume = longResume"
  "40 < length (trim longResume)"
  by (simp_all add: longResume_def extractedTextOf_def extractedTooLargeOf_def sampleEnv_caps
      sampleResume_length padded_trim)

lemma hugeResume_facts:
  "length hugeResume = 120130"
  "extractedTooLargeOf sampleEnv hugeResume"
  "extractedTextOf sampleEnv hugeResume = sampleResume @ replicate 119870 CHR ''x''"
  "40 < length (trim (extractedTextOf sampleEnv hugeResume))"
  by (simp_all add: hugeResume_def extractedTextOf_def extractedTooLargeOf_def sampleEnv_caps
      sampleResume_length padded_trim)

section \<open>Whole runs\<close>

text \<open>The sample tenant past due.\<close>

lemma pastDue_find:
  "find (\<lambda>x. toLowerCase (trim (safeStr (intakeEmail x))) = toEmailOf sampleArgs)
     (rev (filter (\<lambda>c. customerId c \<noteq> [])
        (map (\<lambda>row. \<lparr>customerId = safeStr (customerId row),
                             companyName = safeStr (companyName row),
                             adminEmail = safeStr (adminEmail row),
                             intakeEmail = safeStr (intakeEmail row),
                             status = safeStr (status row),
                             tallySheetId = safeStr (tallySheetId row)\<rparr>)
                  (masterRows pastDueWorld)))) = Some pastDueRecord"
  by code_simp

lemma pastDue_resolve:
  "resolveCustomer (toEmailOf sampleArgs) pastDueWorld = (Some pastDueRecord, pastDueWorld)"
proof -
  have f: "masterFaults pastDueWorld = []" by (simp add: pastDueWorld_def sampleWorld_def)
  show ?thesis
    unfolding resolveCustomer_def getCustomersCached_def readCustomersFromMasterSheet_def
      bindM_def masterRequest_def
    by (simp add: f sample_toEmail pastDue_find)
qed

lemma pastDue_status: "toLowerCase (safeStr (status pastDueRecord)) = ''past_due''"
  by code_simp

text \<open>A whole run on a duplicate, when the ledger answers.\<close>

lemma duplicate_run:
  assumes nf: "sheetFaults w = []"
    and res: "resolveCustomer (toEmailOf args) w = (Some m, w1)"
    and sid: "tallySheetId m \<noteq> []"
    and found: "findIndex (\<lambda>r. safeStr (colA r) = today w)
                  (take 999 (sheets w (tallySheetId m))) = i" "i \<noteq> - 1"
    and tok: "''hash:'' @ sha256Hex (libs env) (argBuffer args)
              \<in> set (tokensOf (safeStr (colG (take 999 (sheets w (tallySheetId m)) ! nat i))))"
  shows "\<exists>r w2. processInboundDoc env args w = (Inr r, w2)
           \<and> \<not> didIncrement (resTally r)
           \<and> (\<forall>t. resTally r = TallyDone t \<longrightarrow> \<not> shouldIncrement t)
           \<and> mails w2 = mails w
           \<and> map colB (sheets w2 (tallySheetId m)) = map colB (sheets w (tallySheetId m))
           \<and> aiCalls w2 = aiCalls w
           \<and> (resDocType r = RESUME \<longrightarrow> writes w2 = writes w \<and> sheets w2 = sheets w)"
proof -
  from extracted_text_total obtain raw where
    x: "(case argExtractedText args of Some t \<Rightarrow> Inr t | None \<Rightarrow>
        extractTextFromBuffer (libs env) (argFilename args) (argBuffer args)) = Inr raw"
    by blast
  from resolveCustomer_frame [OF res] obtain mf where w1: "w1 = w\<lparr>masterFaults := mf\<rparr>"
    by blast
  from resolveCustomer_Some [OF res]
  have cid: "customerIdOf (Some m) \<noteq> []" and se: "sheetIdOf (Some m) = tallySheetId m"
    by (simp_all add: customerIdOf_def sheetIdOf_def)
  from sid se have sne: "sheetIdOf (Some m) \<noteq> []" by simp
  have nf1: "sheetFaults w1 = []" using nf by (simp add: w1)
  have found1: "findIndex (\<lambda>r. safeStr (colA r) = today w1)
                  (take 999 (sheets w1 (sheetIdOf (Some m)))) = i"
    using found(1) by (simp add: w1 se)
  have tok1: "''hash:'' @ sha256Hex (libs env) (argBuffer args)
              \<in> set (tokensOf (safeStr (colG (take 999 (sheets w1 (sheetIdOf (Some m))) ! nat i))))"
    using tok by (simp add: w1 se)
  define body where "body = extractedTextOf env raw"
  define dt where "dt = docTypeOf args body"
  from aiScoring_found_duplicate [OF nf1 sne cid found1 found(2) tok1,
      of body "extractedTooLargeOf env raw" dt "blockedOf (Some m)"
        "getCustomerRubric (customerIdOf (Some m)) w1"]
  obtain reason where
    a: "aiScoring env (argBuffer args) body (extractedTooLargeOf env raw) dt
          (sheetIdOf (Some m)) (customerIdOf (Some m)) (blockedOf (Some m))
          (getCustomerRubric (customerIdOf (Some m)) w1) w1 = (aiSkip reason, w1)"
    by blast
  from tallyStep_found_duplicate [OF nf1 found1 found(2) tok1,
      of "argSource args" "r2KeyOf args" dt "customerIdOf (Some m)" "blockedOf (Some m)"
        "aiSkip reason"]
  obtain tr w3 where
    t: "tallyStep env (argBuffer args) (argSource args) (r2KeyOf args) dt
          (sheetIdOf (Some m)) (customerIdOf (Some m)) (blockedOf (Some m)) (aiSkip reason) w1
        = (tr, w3)"
    and nd: "\<not> didIncrement tr"
    and cb: "map colB (sheets w3 (sheetIdOf (Some m))) = map colB (sheets w1 (sheetIdOf (Some m)))"
    and ml: "mails w3 = mails w1" and ac: "aiCalls w3 = aiCalls w1"
    and same: "dt = RESUME \<longrightarrow> w3 = w1"
    by blast
  define rec where "rec = auditOf args body dt (Some m) (aiSkip reason)"
  define r where "r = resultOf args body dt (Some m) (aiSkip reason) tr"
  from resultEmail_mails [of tr "toEmailOf args" "Some m \<noteq> None" "blockedOf (Some m)" dt
      "aiSkip reason" "saveInboundDocToDb rec w3"] nd
  have e: "resultEmail (toEmailOf args) (Some m \<noteq> None) (blockedOf (Some m)) dt
             (aiSkip reason) tr (saveInboundDocToDb rec w3) = saveInboundDocToDb rec w3"
    by blast
  from processInboundDoc_phases [OF x res a [unfolded body_def dt_def] t [unfolded body_def dt_def],
      folded body_def, folded dt_def, folded rec_def r_def]
  have run: "processInboundDoc env args w = (Inr r, saveInboundDocToDb rec w3)"
    unfolding e .
  have rr: "resTally r = tr" "resDocType r = dt" by (simp_all add: r_def resultOf_def)
  have 1: "\<not> didIncrement (resTally r)" using nd rr by simp
  then have nt: "\<forall>t. resTally r = TallyDone t \<longrightarrow> \<not> shouldIncrement t"
    by (auto simp add: didIncrement_def)
  have 2: "mails (saveInboundDocToDb rec w3) = mails w"
    using ml by (simp add: saveInboundDocToDb_keeps w1)
  have 3: "map colB (sheets (saveInboundDocToDb rec w3) (tallySheetId m))
           = map colB (sheets w (tallySheetId m))"
    using cb by (simp add: saveInboundDocToDb_keeps w1 se)
  have 4: "aiCalls (saveInboundDocToDb rec w3) = aiCalls w"
    using ac by (simp add: saveInboundDocToDb_keeps w1)
  have 5: "resDocType r = RESUME \<longrightarrow>
             writes (saveInboundDocToDb rec w3) = writes w
             \<and> sheets (saveInboundDocToDb rec w3) = sheets w"
    using same rr by (auto simp add: saveInboundDocToDb_keeps w1)
  from run 1 nt 2 3 4 5 show ?thesis by blast
qed








section \<open>Sample runs\<close>

lemma sampleArgs_text:
  "(case argExtractedText sampleArgs of Some t \<Rightarrow> Inr t | None \<Rightarrow>
      extractTextFromBuffer (libs env) (argFilename sampleArgs) (argBuffer sampleArgs))
   = Inr sampleResume"
  "docTypeOf sampleArgs body = RESUME"
  "argBuffer sampleArgs = []"
  by (simp_all add: sampleArgs_def docTypeOf_def)


lemma sampleCustomer_sheet: "tallySheetId sampleCustomer = ''sheet1''"
  by (simp add: sampleCustomer_def)

lemma sampleWorld_resolve:
  "resolveCustomer (toEmailOf sampleArgs) sampleWorld = (Some sampleCustomer, sampleWorld)"
  by (rule sample_resolve) (simp_all add: sampleWorld_def)

lemma sampleWorld_token:
  "''hash:'' @ sha256Hex (libs sampleEnv) (argBuffer sampleArgs)
   \<in> set (tokensOf (safeStr (colG (take 999 (sheets sampleWorld ''sheet1'') ! nat 0))))"
proof -
  have "sheets sampleWorld ''sheet1'' = [sampleDayRow]" by (simp add: sampleWorld_def)
  moreover have "''hash:9f86d081884c7d65'' \<in> set (tokensOf (safeStr (colG sampleDayRow)))"
    by code_simp
  ultimately show ?thesis unfolding sampleArgs_text(3) sample_token by simp
qed






lemma sampleWorld_findIndex:
  "findIndex (\<lambda>r. safeStr (colA r) = today sampleWorld)
     (take 999 (sheets sampleWorld (tallySheetId sampleCustomer))) = 0"
  unfolding sampleCustomer_sheet by (rule sample_findIndex)


section \<open>The day row of a document that is not a resume\<close>



















section \<open>Claims about the classifier\<close>

lemma sampleResume_is_resume: "classifyDocTypeFromText sampleResume = RESUME"
  by code_simp

text \<open>
  Claim C4, as stated, fails on a text that has its letters outside \<^verbatim>\<open>[A-Za-z]\<close>. The
  sample text has 99 alphabetic characters and holds the strong indicator \<open>resume\<close>, so
  the rule of the specification gives \<open>RESUME\<close> by (a); the code counts 79 characters in
  \<^verbatim>\<open>[a-z]\<close> after lower-casing and returns \<open>NON_RESUME\<close>.
\<close>

theorem alphabetic_count_counterexample:
  "alphabeticCount accentedText = 99
   \<and> lowerLetterCount accentedText = 79
   \<and> spec_classify accentedText = RESUME
   \<and> classifyDocTypeFromText accentedText = NON_RESUME"
proof -
  have a: "alphabeticCount accentedText = 99" by code_simp
  have l: "lowerLetterCount accentedText = 79" by code_simp
  have "spec_classify accentedText = decisionRule (toLowerCase accentedText)"
    by (simp add: spec_classify_def a)
  also have "\<dots> = RESUME" unfolding decisionRule_code by code_simp
  finally have s: "spec_classify accentedText = RESUME" .
  have c: "classifyDocTypeFromText accentedText = NON_RESUME" by code_simp
  from a l s c show ?thesis by simp
qed

text \<open>
  Claim C4, amended. The classifier returns \<open>NON_RESUME\<close> for a text whose lower-cased
  form has fewer than 80 characters in \<^verbatim>\<open>[a-z]\<close>; otherwise it computes the resume score
  (strong indicators three times, weak ones once) and the non-resume score (strong
  indicators three times) over the lower-cased text and applies rules (a) to (d) in
  order. \<open>spec_classify_az\<close> states this rule with occurrence of an indicator and the
  number of indicators present; the code's function computes the same category on every
  text.
\<close>

theorem classify_refines_az_rule: "classifyDocTypeFromText t = spec_classify_az t"
  by (simp add: classifyDocTypeFromText_def spec_classify_az_def lowerLetterCount_def Let_def
      decisionRule_code)

theorem classify_refines_az_rule_witness:
  "classifyDocTypeFromText sampleResume = RESUME \<and> spec_classify_az sampleResume = RESUME"
  using classify_refines_az_rule [of sampleResume] sampleResume_is_resume by simp

text \<open>
  Claim C10. The classifier is case-insensitive: a text and its lower-cased form get the
  same category, because the text is lower-cased before any matching and lower-casing
  twice is lower-casing once.
\<close>

theorem classify_case_insensitive:
  "classifyDocTypeFromText (toLowerCase t) = classifyDocTypeFromText t"
  by (simp add: classifyDocTypeFromText_def toLowerCase_idem)

section \<open>Claims about the extractor\<close>

lemma sparsePdfText_trim: "trim sparsePdfText = sparsePdfText"
  by (simp add: sparsePdfText_def trim_def dropWhile_append isWs_space not_isWs_a not_isWs_b)

lemma sparsePdfText_sample:
  "take 2000 sparsePdfText = replicate 99 CHR ''a'' @ replicate 1901 CHR '' ''"
  by (simp add: sparsePdfText_def)

lemma sparsePdfText_sample_trim:
  "trim (replicate 99 CHR ''a'' @ replicate 1901 CHR '' '') = replicate 99 CHR ''a''"
  by (simp add: trim_def dropWhile_append isWs_space not_isWs_a)

lemma sparsePdfText_not_garbled: "\<not> looksGarbledText sparsePdfText"
  by (simp add: looksGarbledText_iff sparsePdfText_sample sparsePdfText_sample_trim
      isAZaz_def code_def)

lemma pdf_name: "endsWith (toLowerCase ''cv.pdf'') ''.pdf''"
  by code_simp

text \<open>
  Claim C7, as stated, fails: it promises the empty string for every PDF whose parsed text
  has fewer than 5% alphabetic characters in its first 2000 characters. For the parsed
  text \<open>sparsePdfText\<close> 99 of the first 2000 characters are letters, yet the extractor
  returns the text: the density is taken over the sample after trimming, and the trimmed
  sample is the 99 letters alone.
\<close>

theorem pdf_density_counterexample:
  "20 * length (filter isAZaz (take 2000 sparsePdfText)) < length (take 2000 sparsePdfText)
   \<and> extractTextFromBuffer sparsePdfLibs ''cv.pdf'' [] = Inr sparsePdfText
   \<and> sparsePdfText \<noteq> []"
proof -
  have "20 * length (filter isAZaz (take 2000 sparsePdfText))
        < length (take 2000 sparsePdfText)"
    by (simp add: sparsePdfText_sample isAZaz_def code_def)
  moreover have "pdfParse sparsePdfLibs [] = Inr (Some sparsePdfText)"
    by (simp add: sparsePdfLibs_def)
  then have "extractTextFromBuffer sparsePdfLibs ''cv.pdf'' [] = Inr sparsePdfText"
    using extract_pdf_parsed [OF pdf_name, of sparsePdfLibs "[]" "Some sparsePdfText"]
    by (simp add: orEmpty_def sparsePdfText_trim sparsePdfText_not_garbled)
  moreover have "sparsePdfText \<noteq> []"
    by (simp add: sparsePdfText_def)
  ultimately show ?thesis by simp
qed

text \<open>
  Claim C7, amended. \<open>extractTextFromBuffer\<close> is total: for every file name and buffer it
  returns a string and never throws, and it returns the empty string when the PDF or DOCX
  parser throws. For a \<^verbatim>\<open>.pdf\<close> the parsed text is trimmed; its sample is the first 2000
  characters of that, trimmed again; when the sample is empty or fewer than 5% of its
  characters are ASCII letters, the empty string is returned.
\<close>

theorem extract_total_pdf_density:
  "(\<exists>s. extractTextFromBuffer L filename buf = Inr s)
   \<and> (endsWith (toLowerCase filename) ''.pdf'' \<longrightarrow>
        (\<forall>e. pdfParse L buf = Inl e \<longrightarrow> extractTextFromBuffer L filename buf = Inr [])
        \<and> (\<forall>parsed. pdfParse L buf = Inr parsed
             \<and> (trim (take 2000 (trim (orEmpty parsed))) = []
                 \<or> 20 * length (filter isAZaz (trim (take 2000 (trim (orEmpty parsed)))))
                    < length (trim (take 2000 (trim (orEmpty parsed)))))
             \<longrightarrow> extractTextFromBuffer L filename buf = Inr []))
   \<and> (endsWith (toLowerCase filename) ''.docx'' \<longrightarrow>
        (\<forall>e. mammothExtractRawText L buf = Inl e
           \<longrightarrow> extractTextFromBuffer L filename buf = Inr []))"
proof (intro conjI impI allI)
  show "\<exists>s. extractTextFromBuffer L filename buf = Inr s"
    by (rule extract_never_throws)
next
  fix e
  assume "endsWith (toLowerCase filename) ''.pdf''" and "pdfParse L buf = Inl e"
  then show "extractTextFromBuffer L filename buf = Inr []"
    by (rule extract_pdf_throw)
next
  fix parsed
  assume pdf: "endsWith (toLowerCase filename) ''.pdf''"
    and p: "pdfParse L buf = Inr parsed
       \<and> (trim (take 2000 (trim (orEmpty parsed))) = []
           \<or> 20 * length (filter isAZaz (trim (take 2000 (trim (orEmpty parsed)))))
              < length (trim (take 2000 (trim (orEmpty parsed)))))"
  then have "looksGarbledText (trim (orEmpty parsed))"
    by (simp add: looksGarbledText_iff Let_def)
  with extract_pdf_parsed [OF pdf, of L buf parsed] p
  show "extractTextFromBuffer L filename buf = Inr []" by simp
next
  fix e
  assume "endsWith (toLowerCase filename) ''.docx''" and "mammothExtractRawText L buf = Inl e"
  then show "extractTextFromBuffer L filename buf = Inr []"
    by (rule extract_docx_throw)
qed

theorem extract_total_pdf_density_witness:
  "endsWith (toLowerCase ''cv.pdf'') ''.pdf''
   \<and> pdfParse digitsPdfLibs [] = Inr (Some digitsPdfText)
   \<and> 20 * length (filter isAZaz (trim (take 2000 (trim (orEmpty (Some digitsPdfText))))))
      < length (trim (take 2000 (trim (orEmpty (Some digitsPdfText)))))
   \<and> extractTextFromBuffer digitsPdfLibs ''cv.pdf'' [] = Inr []"
proof -
  have p: "pdfParse digitsPdfLibs [] = Inr (Some digitsPdfText)"
    by (simp add: digitsPdfLibs_def)
  have d: "20 * length (filter isAZaz (trim (take 2000 (trim (orEmpty (Some digitsPdfText))))))
           < length (trim (take 2000 (trim (orEmpty (Some digitsPdfText)))))"
    by (simp add: orEmpty_def digitsPdfText_def trim_def isWs_def isAZaz_def code_def)
  from extract_total_pdf_density [of digitsPdfLibs "''cv.pdf''" "[]"] pdf_name p d
  have "extractTextFromBuffer digitsPdfLibs ''cv.pdf'' [] = Inr []" by blast
  with pdf_name p d show ?thesis by simp
qed

section \<open>Claims about the ledger engine\<close>




text \<open>
  Claim C6. When the read of the token-set cell throws during the duplicate check of
  \<^verbatim>\<open>tallyApply\<close> (the day row is there, and the next sheet request fails), the document
  counts as new: the next request issued is the update of B with the count plus one, a
  returned result reports \<open>shouldIncrement\<close> with that count, and \<^verbatim>\<open>tallyApply\<close> does
  return when no further fault is pending. In the same situation the idempotency check
  that precedes scoring answers "not processed today".
\<close>

theorem token_read_failure_counts:
  assumes ens: "ensureTodayTallyRow sid (today w) cid w = (Inr er, w1)"
    and fault: "sheetFaults w1 = True # fs"
    and tok: "docToken \<noteq> []"
  shows "(\<exists>ws. writes (snd (tallyApply env sid cid RESUME src r2Key docToken ai w))
               = writes w1 @ Update sid (rowIndex0 er + 2) (WB (currentCount er + 1)) # ws)
       \<and> (\<forall>t. fst (tallyApply env sid cid RESUME src r2Key docToken ai w) = Inr t
             \<longrightarrow> shouldIncrement t \<and> nextCount t = currentCount er + 1)
       \<and> (fs = [] \<longrightarrow> (\<exists>t. fst (tallyApply env sid cid RESUME src r2Key docToken ai w) = Inr t))
       \<and> fst (alreadyProcessedToday sid cid docToken w) = False"
proof -
  define w2 where "w2 = w1\<lparr>sheetFaults := fs\<rparr>"
  define t1 where "t1 = \<lparr>tallyToday = today w, nextCount = currentCount er + 1,
           nextNotes = appendNote (cleanNotes (currentNotes er)) (src @ '':RESUME''),
           shouldIncrement = True\<rparr>"
  have chk: "hasTokenAlready sid (rowIndex0 er + 2) RESUME docToken w1 = (Inr False, w2)"
    unfolding w2_def by (rule hasTokenAlready_fault [OF fault tok])
  note eq = tallyApply_resume_after_check [OF ens chk, of env src r2Key ai, folded t1_def]
  have w2w: "writes w2 = writes w1" by (simp add: w2_def)
  have "\<exists>ws. writes (snd (tallyApply env sid cid RESUME src r2Key docToken ai w))
               = writes w1 @ Update sid (rowIndex0 er + 2) (WB (currentCount er + 1)) # ws"
    unfolding eq w2w [symmetric]
    by (rule update_then_grows [OF resume_chain_grows])
  moreover have "shouldIncrement t \<and> nextCount t = currentCount er + 1"
    if "fst (tallyApply env sid cid RESUME src r2Key docToken ai w) = Inr t" for t
  proof -
    from that have "t = t1" unfolding eq by (rule resume_chain_result)
    then show ?thesis by (simp add: t1_def)
  qed
  moreover have "\<exists>t. fst (tallyApply env sid cid RESUME src r2Key docToken ai w) = Inr t"
    if "fs = []"
  proof -
    from that have "sheetFaults w2 = []" by (simp add: w2_def)
    with resume_chain_ok [of sid "rowIndex0 er + 2" "WB (currentCount er + 1)"
        "WC (appendNote (cleanNotes (currentNotes er)) (src @ '':RESUME''))" "WD cid"
        r2Key env docToken ai t1]
    show ?thesis unfolding eq okM_def by fastforce
  qed
  moreover have "fst (alreadyProcessedToday sid cid docToken w) = False"
    by (rule precheck_fault [OF ens fault])
  ultimately show ?thesis by blast
qed

theorem token_read_failure_counts_witness:
  "ensureTodayTallyRow ''sheet1'' (today readFaultWorld) ''cust_acme'' readFaultWorld
     = (Inr \<lparr>rowIndex0 = 0, currentCount = 1, currentNotes = ''resend:RESUME''\<rparr>,
        readFaultWorld\<lparr>sheetFaults := [True]\<rparr>)
   \<and> ''hash:9f86d081884c7d65'' \<in> set (tokensOf (colG sampleDayRow))
   \<and> (\<exists>t. fst (tallyApply sampleEnv ''sheet1'' ''cust_acme'' RESUME ''resend''
                   ''inbound/b.txt'' ''hash:9f86d081884c7d65'' sampleScore readFaultWorld) = Inr t
          \<and> shouldIncrement t \<and> nextCount t = 2)
   \<and> \<not> fst (alreadyProcessedToday ''sheet1'' ''cust_acme'' ''hash:9f86d081884c7d65''
              readFaultWorld)"
proof -
  have ens: "ensureTodayTallyRow ''sheet1'' (today readFaultWorld) ''cust_acme'' readFaultWorld
     = (Inr \<lparr>rowIndex0 = 0, currentCount = 1, currentNotes = ''resend:RESUME''\<rparr>,
        readFaultWorld\<lparr>sheetFaults := [True]\<rparr>)"
  proof -
    have f: "sheetFaults readFaultWorld = False # [True]"
      by (simp add: readFaultWorld_def)
    have i: "findIndex (\<lambda>r. safeStr (colA r) = today readFaultWorld)
               (take 999 (sheets readFaultWorld ''sheet1'')) = 0"
      using sample_findIndex by (simp add: readFaultWorld_def)
    have c: "colB (take 999 (sheets readFaultWorld ''sheet1'') ! nat 0) = 1"
      by (simp add: readFaultWorld_def sampleWorld_def sampleDayRow_def)
    have n: "safeStr (colC (take 999 (sheets readFaultWorld ''sheet1'') ! nat 0))
             = ''resend:RESUME''"
      by (simp add: readFaultWorld_def sampleWorld_def sampleDayRow_def safeStr_def trim_def
          isWs_def code_def)
    from ensure_found_ok [OF f i, of "''cust_acme''"] c n show ?thesis by simp
  qed
  have fault: "sheetFaults (readFaultWorld\<lparr>sheetFaults := [True]\<rparr>) = True # []"
    by simp
  have tok: "''hash:9f86d081884c7d65'' \<noteq> []" by simp
  have present: "''hash:9f86d081884c7d65'' \<in> set (tokensOf (colG sampleDayRow))"
    by code_simp
  note inst = token_read_failure_counts [OF ens fault tok, of sampleEnv "''resend''"
      "''inbound/b.txt''" sampleScore, simplified]
  have r: "(\<exists>t. fst (tallyApply sampleEnv ''sheet1'' ''cust_acme'' RESUME ''resend''
                   ''inbound/b.txt'' ''hash:9f86d081884c7d65'' sampleScore readFaultWorld) = Inr t
          \<and> shouldIncrement t \<and> nextCount t = 2)
   \<and> \<not> fst (alreadyProcessedToday ''sheet1'' ''cust_acme'' ''hash:9f86d081884c7d65''
              readFaultWorld)"
    by (rule returns_shape [OF inst])
  show ?thesis by (rule conjI [OF ens conjI [OF present r]])
qed

section \<open>Claims about the scoring gateway\<close>

text \<open>
  Claim C5, as stated, fails: it promises a hard "too large" skip, and no scorer call, for
  every resume whose text exceeds the per-request scoring cap \<^verbatim>\<open>MAX_OPENAI_CHARS\<close>, and
  that the text sent is never a truncated one. With the default caps, a resume text of
  60030 characters is within the extraction cap and over the scoring cap; the pipeline
  calls the scorer once, with the first 60000 characters of the text.
\<close>

theorem scoring_truncates_counterexample:
  "MAX_OPENAI_CHARS sampleEnv < length longResume
   \<and> \<not> extractedTooLargeOf sampleEnv longResume
   \<and> aiCalls (snd (processInboundDoc sampleEnv longArgs freshDayWorld))
       = [take (MAX_OPENAI_CHARS sampleEnv) longResume]
   \<and> length (take (MAX_OPENAI_CHARS sampleEnv) longResume) < length longResume"
proof -
  note x = variant_run(1) [where t = longResume and env = sampleEnv, folded longArgs_def]
  note v = variant_run(2,4,5) [where t = longResume, folded longArgs_def]
  have len: "120 \<le> length (extractedTextOf sampleEnv longResume)"
    by (simp add: longResume_facts)
  have dt: "docTypeOf longArgs (extractedTextOf sampleEnv longResume) = RESUME"
    by (rule v(2))
  have long: "40 < length (trim (extractedTextOf sampleEnv longResume))"
    by (simp add: longResume_facts)
  from pipeline_scores(2) [OF x v(1) sample_customer(3) dt long longResume_facts(2) v(3) len
      freshDayWorld_rubric]
  have "aiCalls (snd (processInboundDoc sampleEnv longArgs freshDayWorld))
       = [take (MAX_OPENAI_CHARS sampleEnv) longResume]"
    by (simp add: longResume_facts freshDayWorld_fields)
  then show ?thesis by (simp add: longResume_facts sampleEnv_caps)
qed

text \<open>
  Claim C5, amended. The "too large" skip is tied to the extraction cap: when the raw
  extracted text is longer than \<^verbatim>\<open>MAX_EXTRACTED_CHARS\<close>, no scorer call is made and the
  outcome is a skip, tagged \<^verbatim>\<open>too_large\<close> for a resume that is not blocked and whose
  capped text has more than 40 characters after trimming. The scoring cap
  \<^verbatim>\<open>MAX_OPENAI_CHARS\<close> does not skip, it truncates. A run calls the scorer exactly when the
  text is within the extraction cap, the tenant is not blocked, the document is a resume
  with more than 40 characters after trimming and at least 120 in all, and the daily
  idempotency check does not report it; the scoring cap is not among these conditions.
  The run then makes one call, and what it sends is the first \<^verbatim>\<open>MAX_OPENAI_CHARS\<close>
  characters of the capped text, preceded by the rubric block when the tenant has a
  rubric that is not empty, and by nothing otherwise. In every other case it makes no
  call.
\<close>

theorem scoring_size_cap:
  "\<exists>raw match w1 r w5.
      (case argExtractedText args of Some t \<Rightarrow> Inr t | None \<Rightarrow>
         extractTextFromBuffer (libs env) (argFilename args) (argBuffer args)) = Inr raw
      \<and> resolveCustomer (toEmailOf args) w = (match, w1)
      \<and> processInboundDoc env args w = (Inr r, w5)
      \<and> (extractedTooLargeOf env raw \<longrightarrow>
            aiCalls w5 = aiCalls w \<and> skipped (resAi r)
            \<and> (\<not> resBlocked r \<and> resDocType r = RESUME
                \<and> 40 < length (trim (extractedTextOf env raw))
                \<longrightarrow> resAi r = aiSkip ''too_large''))
      \<and> aiCalls w5 =
          (if \<not> extractedTooLargeOf env raw \<and> \<not> resBlocked r \<and> resDocType r = RESUME
              \<and> 40 < length (trim (extractedTextOf env raw))
              \<and> 120 \<le> length (extractedTextOf env raw)
              \<and> \<not> fst (alreadyProcessedToday (sheetIdOf match) (customerIdOf match)
                         (''hash:'' @ sha256Hex (libs env) (argBuffer args)) w1)
           then aiCalls w
                @ [(case getCustomerRubric (customerIdOf match) w1 of
                      None \<Rightarrow> []
                    | Some rb \<Rightarrow> if rb = [] then []
                                else ''RUBRIC (customer scoring criteria):'' @ [nl] @ rb
                                     @ [nl, nl])
                   @ take (MAX_OPENAI_CHARS env) (extractedTextOf env raw)]
           else aiCalls w)"
proof -
  from extracted_text_total obtain raw where
    x: "(case argExtractedText args of Some t \<Rightarrow> Inr t | None \<Rightarrow>
        extractTextFromBuffer (libs env) (argFilename args) (argBuffer args)) = Inr raw"
    by blast
  obtain match w1 where r: "resolveCustomer (toEmailOf args) w = (match, w1)"
    by (cases "resolveCustomer (toEmailOf args) w")
  define body where "body = extractedTextOf env raw"
  define dt where "dt = docTypeOf args body"
  define A where "A = aiScoring env (argBuffer args) body (extractedTooLargeOf env raw)
       dt (sheetIdOf match) (customerIdOf match)
       (blockedOf match) (getCustomerRubric (customerIdOf match) w1) w1"
  obtain ai w2 where a: "A = (ai, w2)" by (cases A)
  from pipeline_aiCalls [OF x r a [unfolded A_def dt_def body_def]]
  obtain tr w5 where run: "processInboundDoc env args w
            = (Inr (resultOf args body dt match ai tr), w5)"
    and c: "aiCalls w5 = aiCalls w2" "aiCalls w1 = aiCalls w"
    unfolding body_def dt_def by blast
  define res where "res = resultOf args body dt match ai tr"
  have rr: "resAi res = ai" "resBlocked res = blockedOf match" "resDocType res = dt"
    by (simp_all add: res_def resultOf_def)
  have large: "aiCalls w5 = aiCalls w \<and> skipped (resAi res)
            \<and> (\<not> resBlocked res \<and> resDocType res = RESUME \<and> 40 < length (trim body)
                \<longrightarrow> resAi res = aiSkip ''too_large'')"
    if tl: "extractedTooLargeOf env raw"
  proof -
    from tl have "blockedOf match \<or> dt \<noteq> RESUME \<or> \<not> 40 < length (trim body)
                  \<or> extractedTooLargeOf env raw" by simp
    from aiScoring_skip_cases [OF this, of env "argBuffer args" "sheetIdOf match"
        "customerIdOf match" "getCustomerRubric (customerIdOf match) w1" w1] a
    have "ai = aiSkip (if blockedOf match then ''billing_block''
                    else if dt = RESUME \<and> 40 < length (trim body) then ''too_large''
                    else if dt \<noteq> RESUME then ''non_resume'' else ''too_short'')"
      and "w2 = w1"
      unfolding A_def by simp_all
    with c rr show ?thesis by (simp add: aiSkip_def)
  qed
  from aiScoring_calls_exact [of env "argBuffer args" body "extractedTooLargeOf env raw" dt
      "sheetIdOf match" "customerIdOf match" "blockedOf match"
      "getCustomerRubric (customerIdOf match) w1" w1] a
  have "aiCalls w2 =
          (if \<not> extractedTooLargeOf env raw \<and> \<not> blockedOf match \<and> dt = RESUME
              \<and> 40 < length (trim body) \<and> 120 \<le> length body
              \<and> \<not> fst (alreadyProcessedToday (sheetIdOf match) (customerIdOf match)
                         (''hash:'' @ sha256Hex (libs env) (argBuffer args)) w1)
           then aiCalls w1
                @ [(case getCustomerRubric (customerIdOf match) w1 of
                      None \<Rightarrow> []
                    | Some rb \<Rightarrow> if rb = [] then []
                                else ''RUBRIC (customer scoring criteria):'' @ [nl] @ rb
                                     @ [nl, nl])
                   @ take (MAX_OPENAI_CHARS env) body]
           else aiCalls w1)"
    unfolding A_def by simp
  then have calls: "aiCalls w5 =
          (if \<not> extractedTooLargeOf env raw \<and> \<not> resBlocked res \<and> resDocType res = RESUME
              \<and> 40 < length (trim body) \<and> 120 \<le> length body
              \<and> \<not> fst (alreadyProcessedToday (sheetIdOf match) (customerIdOf match)
                         (''hash:'' @ sha256Hex (libs env) (argBuffer args)) w1)
           then aiCalls w
                @ [(case getCustomerRubric (customerIdOf match) w1 of
                      None \<Rightarrow> []
                    | Some rb \<Rightarrow> if rb = [] then []
                                else ''RUBRIC (customer scoring criteria):'' @ [nl] @ rb
                                     @ [nl, nl])
                   @ take (MAX_OPENAI_CHARS env) body]
           else aiCalls w)"
    unfolding rr c by simp
  from x r run [folded res_def] large calls show ?thesis unfolding body_def by blast
qed

theorem scoring_size_cap_witness:
  "extractedTooLargeOf sampleEnv hugeResume
   \<and> (\<exists>r w5. processInboundDoc sampleEnv hugeArgs freshDayWorld = (Inr r, w5)
         \<and> aiCalls w5 = aiCalls freshDayWorld \<and> resAi r = aiSkip ''too_large'')
   \<and> \<not> extractedTooLargeOf sampleEnv longResume
   \<and> MAX_OPENAI_CHARS sampleEnv < length longResume
   \<and> (\<exists>r w5. processInboundDoc sampleEnv longArgs freshDayWorld = (Inr r, w5)
         \<and> aiCalls w5 = aiCalls freshDayWorld @ [take (MAX_OPENAI_CHARS sampleEnv) longResume])"
proof -
  have huge: "\<exists>r w5. processInboundDoc sampleEnv hugeArgs freshDayWorld = (Inr r, w5)
         \<and> aiCalls w5 = aiCalls freshDayWorld \<and> resAi r = aiSkip ''too_large''"
  proof -
    note x = variant_run(1) [where t = hugeResume and env = sampleEnv, folded hugeArgs_def]
    note v = variant_run(2,4) [where t = hugeResume, folded hugeArgs_def]
    from scoring_size_cap [where args = hugeArgs and env = sampleEnv and w = freshDayWorld]
    obtain raw r w5 where
      xr: "(case argExtractedText hugeArgs of Some t \<Rightarrow> Inr t | None \<Rightarrow>
           extractTextFromBuffer (libs sampleEnv) (argFilename hugeArgs) (argBuffer hugeArgs))
           = Inr raw"
      and run: "processInboundDoc sampleEnv hugeArgs freshDayWorld = (Inr r, w5)"
      and big: "extractedTooLargeOf sampleEnv raw \<longrightarrow>
              aiCalls w5 = aiCalls freshDayWorld \<and> skipped (resAi r)
              \<and> (\<not> resBlocked r \<and> resDocType r = RESUME
                  \<and> 40 < length (trim (extractedTextOf sampleEnv raw))
                  \<longrightarrow> resAi r = aiSkip ''too_large'')"
      by blast
    from x xr have raw: "raw = hugeResume" by simp
    from pipeline_result [OF x v(1) run] sample_customer(3) v(2)
    have rr: "\<not> resBlocked r" "resDocType r = RESUME" by simp_all
    from big raw hugeResume_facts(2,4) rr
    have "aiCalls w5 = aiCalls freshDayWorld \<and> resAi r = aiSkip ''too_large''" by blast
    with run show ?thesis by blast
  qed
  have long: "\<exists>r w5. processInboundDoc sampleEnv longArgs freshDayWorld = (Inr r, w5)
         \<and> aiCalls w5 = aiCalls freshDayWorld @ [take (MAX_OPENAI_CHARS sampleEnv) longResume]"
  proof -
    note x = variant_run(1) [where t = longResume and env = sampleEnv, folded longArgs_def]
    note v = variant_run(2,4,5) [where t = longResume, folded longArgs_def]
    from scoring_size_cap [where args = longArgs and env = sampleEnv and w = freshDayWorld]
    obtain raw match w1 r w5 where
      xr: "(case argExtractedText longArgs of Some t \<Rightarrow> Inr t | None \<Rightarrow>
           extractTextFromBuffer (libs sampleEnv) (argFilename longArgs) (argBuffer longArgs))
           = Inr raw"
      and res: "resolveCustomer (toEmailOf longArgs) freshDayWorld = (match, w1)"
      and run: "processInboundDoc sampleEnv longArgs freshDayWorld = (Inr r, w5)"
      and calls: "aiCalls w5 =
          (if \<not> extractedTooLargeOf sampleEnv raw \<and> \<not> resBlocked r \<and> resDocType r = RESUME
              \<and> 40 < length (trim (extractedTextOf sampleEnv raw))
              \<and> 120 \<le> length (extractedTextOf sampleEnv raw)
              \<and> \<not> fst (alreadyProcessedToday (sheetIdOf match) (customerIdOf match)
                         (''hash:'' @ sha256Hex (libs sampleEnv) (argBuffer longArgs)) w1)
           then aiCalls freshDayWorld
                @ [(case getCustomerRubric (customerIdOf match) w1 of
                      None \<Rightarrow> []
                    | Some rb \<Rightarrow> if rb = [] then []
                                else ''RUBRIC (customer scoring criteria):'' @ [nl] @ rb
                                     @ [nl, nl])
                   @ take (MAX_OPENAI_CHARS sampleEnv) (extractedTextOf sampleEnv raw)]
           else aiCalls freshDayWorld)"
      by blast
    from x xr have raw: "raw = longResume" by simp
    from res v(1) have m: "match = Some sampleCustomer" "w1 = freshDayWorld" by simp_all
    from pipeline_result [OF x v(1) run] sample_customer(3) v(2)
    have rr: "\<not> resBlocked r" "resDocType r = RESUME" by simp_all
    have len: "120 \<le> length (extractedTextOf sampleEnv longResume)"
      by (simp add: longResume_facts)
    have long: "40 < length (trim (extractedTextOf sampleEnv longResume))"
      by (simp add: longResume_facts)
    have rub: "(case getCustomerRubric (customerIdOf (Some sampleCustomer)) freshDayWorld of
                  None \<Rightarrow> []
                | Some rb \<Rightarrow> if rb = [] then []
                             else ''RUBRIC (customer scoring criteria):'' @ [nl] @ rb
                                  @ [nl, nl]) = []"
      unfolding freshDayWorld_rubric by simp
    from calls have "aiCalls w5
        = aiCalls freshDayWorld @ [take (MAX_OPENAI_CHARS sampleEnv) longResume]"
      unfolding raw m rub using rr len long longResume_facts(2) v(3)
      by (simp add: longResume_facts(3))
    with run show ?thesis by blast
  qed
  have cap: "MAX_OPENAI_CHARS sampleEnv < length longResume"
    by (simp add: longResume_facts sampleEnv_caps)
  from hugeResume_facts(2) huge longResume_facts(2) cap long show ?thesis by blast
qed

text \<open>
  Claim C8. Take a document that the classifier reads as a resume (its category is left to
  the pipeline or passed as \<open>RESUME\<close>), whose tenant is not blocked, whose text is within
  the extraction cap, and which the daily idempotency check does not report as processed.
  With exactly 120 characters the scorer is called, on the text up to the scoring cap;
  with 119 characters the outcome is the \<^verbatim>\<open>too_short\<close> skip and no scorer call is made.
  The same holds on either side of the threshold.
\<close>

theorem scoring_length_boundary:
  assumes x: "(case argExtractedText args of Some t \<Rightarrow> Inr t | None \<Rightarrow>
        extractTextFromBuffer (libs env) (argFilename args) (argBuffer args)) = Inr raw"
    and r: "resolveCustomer (toEmailOf args) w = (match, w1)"
    and cls: "classifyDocTypeFromText raw = RESUME"
    and dta: "argDocType args = None \<or> argDocType args = Some RESUME"
    and nb: "\<not> blockedOf match"
    and cap: "\<not> extractedTooLargeOf env raw"
    and nd: "\<not> fst (alreadyProcessedToday (sheetIdOf match) (customerIdOf match)
                     (''hash:'' @ sha256Hex (libs env) (argBuffer args)) w1)"
  shows "(length raw = 120 \<longrightarrow>
            (\<exists>pre. aiCalls (snd (processInboundDoc env args w))
                    = aiCalls w @ [pre @ take (MAX_OPENAI_CHARS env) raw]))
       \<and> (length raw = 119 \<longrightarrow>
            (\<exists>r w5. processInboundDoc env args w = (Inr r, w5)
               \<and> resAi r = aiSkip ''too_short'' \<and> aiCalls w5 = aiCalls w))
       \<and> (120 \<le> length raw \<longrightarrow>
            (\<exists>pre. aiCalls (snd (processInboundDoc env args w))
                    = aiCalls w @ [pre @ take (MAX_OPENAI_CHARS env) raw]))
       \<and> (length raw < 120 \<longrightarrow>
            (\<exists>r w5. processInboundDoc env args w = (Inr r, w5)
               \<and> resAi r = aiSkip ''too_short'' \<and> aiCalls w5 = aiCalls w))"
proof -
  from cap have tx: "extractedTextOf env raw = raw" by (simp add: extractedTextOf_def)
  from classified_resume_long [OF cls] have long: "40 < length (trim raw)" by simp
  with dta cls have dt: "docTypeOf args (extractedTextOf env raw) = RESUME"
    by (auto simp: docTypeOf_def tx)
  from long have long': "40 < length (trim (extractedTextOf env raw))" by (simp add: tx)
  have score: "\<exists>pre. aiCalls (snd (processInboundDoc env args w))
                    = aiCalls w @ [pre @ take (MAX_OPENAI_CHARS env) raw]"
    if "120 \<le> length raw"
  proof -
    from that have "120 \<le> length (extractedTextOf env raw)" by (simp add: tx)
    from pipeline_scores(1) [OF x r nb dt long' cap nd this] show ?thesis by (simp add: tx)
  qed
  have short: "\<exists>r w5. processInboundDoc env args w = (Inr r, w5)
               \<and> resAi r = aiSkip ''too_short'' \<and> aiCalls w5 = aiCalls w"
    if "length raw < 120"
  proof -
    from that have "length (extractedTextOf env raw) < 120" by (simp add: tx)
    from pipeline_too_short [OF x r nb dt long' cap this] show ?thesis .
  qed
  from score short show ?thesis by simp
qed

theorem scoring_length_boundary_witness:
  "classifyDocTypeFromText resume120 = RESUME \<and> length resume120 = 120
   \<and> (\<exists>pre. aiCalls (snd (processInboundDoc sampleEnv args120 freshDayWorld))
             = aiCalls freshDayWorld @ [pre @ take (MAX_OPENAI_CHARS sampleEnv) resume120])
   \<and> classifyDocTypeFromText resume119 = RESUME \<and> length resume119 = 119
   \<and> (\<exists>r w5. processInboundDoc sampleEnv args119 freshDayWorld = (Inr r, w5)
         \<and> resAi r = aiSkip ''too_short'' \<and> aiCalls w5 = aiCalls freshDayWorld)"
proof -
  have cap120: "\<not> extractedTooLargeOf sampleEnv resume120"
    by (simp add: extractedTooLargeOf_def resume120_facts sampleEnv_caps)
  have cap119: "\<not> extractedTooLargeOf sampleEnv resume119"
    by (simp add: extractedTooLargeOf_def resume119_facts sampleEnv_caps)
  note x120 = variant_run(1) [where t = resume120 and env = sampleEnv, folded args120_def]
  note v120 = variant_run(2,3,5) [where t = resume120, folded args120_def]
  note x119 = variant_run(1) [where t = resume119 and env = sampleEnv, folded args119_def]
  note v119 = variant_run(2,3,5) [where t = resume119, folded args119_def]
  note b120 = scoring_length_boundary [OF x120 v120(1) resume120_facts(1) v120(2)
      sample_customer(3) cap120 v120(3)]
  note b119 = scoring_length_boundary [OF x119 v119(1) resume119_facts(1) v119(2)
      sample_customer(3) cap119 v119(3)]
  from b120 resume120_facts(2)
  have s: "\<exists>pre. aiCalls (snd (processInboundDoc sampleEnv args120 freshDayWorld))
             = aiCalls freshDayWorld @ [pre @ take (MAX_OPENAI_CHARS sampleEnv) resume120]"
    by blast
  from b119 resume119_facts(2)
  have t: "\<exists>r w5. processInboundDoc sampleEnv args119 freshDayWorld = (Inr r, w5)
         \<and> resAi r = aiSkip ''too_short'' \<and> aiCalls w5 = aiCalls freshDayWorld"
    by blast
  from resume120_facts s resume119_facts t show ?thesis by (intro conjI)
qed

section \<open>Claims about the whole pipeline\<close>




text \<open>
  Claim C2. \<^verbatim>\<open>processInboundDoc\<close> always returns. When the tally outcome is not a confirmed
  increment (a duplicate skip, a billing block, a failed or absent tally), the list of
  emails handed to the mail service is unchanged; in every run at most one email is
  handed over, and only when the tally returned \<open>shouldIncrement\<close>. A dispatch failure
  changes nothing in what is returned: under any schedule of mail faults the run returns
  the same result.
\<close>

theorem result_email_gate:
  "\<exists>r w2. processInboundDoc env args w = (Inr r, w2)
     \<and> (\<not> didIncrement (resTally r) \<longrightarrow> mails w2 = mails w)
     \<and> (mails w2 = mails w
          \<or> (\<exists>m t. mails w2 = mails w @ [m] \<and> resTally r = TallyDone t \<and> shouldIncrement t))
     \<and> (\<forall>mf. fst (processInboundDoc env args (w\<lparr>mailFaults := mf\<rparr>)) = Inr r)"
proof -
  obtain raw match w1 ai w2 tr w3 where
    x: "(case argExtractedText args of Some t \<Rightarrow> Inr t | None \<Rightarrow>
        extractTextFromBuffer (libs env) (argFilename args) (argBuffer args)) = Inr raw"
    and r: "resolveCustomer (toEmailOf args) w = (match, w1)"
    and a: "aiScoring env (argBuffer args) (extractedTextOf env raw) (extractedTooLargeOf env raw)
       (docTypeOf args (extractedTextOf env raw)) (sheetIdOf match) (customerIdOf match)
       (blockedOf match) (getCustomerRubric (customerIdOf match) w1) w1 = (ai, w2)"
    and t: "tallyStep env (argBuffer args) (argSource args) (r2KeyOf args)
       (docTypeOf args (extractedTextOf env raw)) (sheetIdOf match) (customerIdOf match)
       (blockedOf match) ai w2 = (tr, w3)"
    by (rule processInboundDoc_phases_exist)
  define dt where "dt = docTypeOf args (extractedTextOf env raw)"
  define rec where "rec = auditOf args (extractedTextOf env raw) dt match ai"
  define res where "res = resultOf args (extractedTextOf env raw) dt match ai tr"
  note run = processInboundDoc_phases [OF x r a t, folded dt_def, folded rec_def res_def]
  have m1: "mails w1 = mails w"
    using unaffected_mail_keeps [of "resolveCustomer (toEmailOf args)" w,
        OF unaffected_resolveCustomer_mail] r by simp
  have m2: "mails w2 = mails w1"
    using unaffected_mail_keeps [where w = w1, OF unaffected_aiScoring_mail] a
    by (metis snd_conv)
  have m3: "mails w3 = mails w2"
    using unaffected_mail_keeps [where w = w2, OF unaffected_tallyStep [OF neutral_mailU]] t
    by (metis snd_conv)
  have m4: "mails (saveInboundDocToDb rec w3) = mails w"
    using m1 m2 m3 by (simp add: saveInboundDocToDb_keeps)
  have tr: "resTally res = tr" by (simp add: res_def resultOf_def)
  have indep: "fst (processInboundDoc env args (w\<lparr>mailFaults := mf\<rparr>)) = Inr res" for mf
  proof -
    let ?u = "mailU mf (mails w)"
    have ru: "resolveCustomer (toEmailOf args) (?u w) = (match, ?u w1)"
      by (rule unaffected_apply [OF unaffected_resolveCustomer_mail r])
    have au: "aiScoring env (argBuffer args) (extractedTextOf env raw)
       (extractedTooLargeOf env raw)
       (docTypeOf args (extractedTextOf env raw)) (sheetIdOf match) (customerIdOf match)
       (blockedOf match) (getCustomerRubric (customerIdOf match) (?u w1)) (?u w1) = (ai, ?u w2)"
      unfolding getCustomerRubric_mail
      by (rule unaffected_apply [OF unaffected_aiScoring_mail a])
    have tu: "tallyStep env (argBuffer args) (argSource args) (r2KeyOf args)
       (docTypeOf args (extractedTextOf env raw)) (sheetIdOf match) (customerIdOf match)
       (blockedOf match) ai (?u w2) = (tr, ?u w3)"
      by (rule unaffected_apply [OF unaffected_tallyStep [OF neutral_mailU] t])
    from processInboundDoc_phases [OF x ru au tu, folded dt_def, folded rec_def res_def]
    show ?thesis unfolding mailU_faults_only by simp
  qed
  define w5 where "w5 = resultEmail (toEmailOf args) (match \<noteq> None) (blockedOf match) dt ai tr
                          (saveInboundDocToDb rec w3)"
  from resultEmail_mails [of tr "toEmailOf args" "match \<noteq> None" "blockedOf match" dt ai
      "saveInboundDocToDb rec w3"]
  have A: "\<not> didIncrement tr \<longrightarrow> w5 = saveInboundDocToDb rec w3"
    and B: "mails w5 = mails (saveInboundDocToDb rec w3)
            \<or> (\<exists>m. mails w5 = mails (saveInboundDocToDb rec w3) @ [m])"
    unfolding w5_def by blast+
  from A have A': "\<not> didIncrement (resTally res) \<longrightarrow> mails w5 = mails w"
    using m4 tr by auto
  from B have B': "mails w5 = mails w \<or> (\<exists>m. mails w5 = mails w @ [m])"
    unfolding m4 .
  have B'': "mails w5 = mails w
             \<or> (\<exists>m t. mails w5 = mails w @ [m] \<and> resTally res = TallyDone t
                      \<and> shouldIncrement t)"
  proof (cases "didIncrement tr")
    case True
    then obtain t where "tr = TallyDone t" "shouldIncrement t"
      by (auto simp add: didIncrement_def split: TallyResult.splits)
    with B' A' tr show ?thesis by auto
  next
    case False
    with A' tr show ?thesis by simp
  qed
  from run have run': "processInboundDoc env args w = (Inr res, w5)"
    unfolding w5_def .
  from run' A' B'' indep show ?thesis by blast
qed

theorem result_email_gate_witness:
  "\<exists>r w2. processInboundDoc sampleEnv sampleArgs sampleWorld = (Inr r, w2)
     \<and> \<not> didIncrement (resTally r) \<and> mails w2 = mails sampleWorld
     \<and> fst (processInboundDoc sampleEnv sampleArgs (sampleWorld\<lparr>mailFaults := [True]\<rparr>))
         = Inr r"
proof -
  from result_email_gate [where env = sampleEnv and args = sampleArgs and w = sampleWorld]
  obtain r w2 where run: "processInboundDoc sampleEnv sampleArgs sampleWorld = (Inr r, w2)"
    and gate: "\<not> didIncrement (resTally r) \<longrightarrow> mails w2 = mails sampleWorld"
    and any: "\<And>mf. fst (processInboundDoc sampleEnv sampleArgs
                          (sampleWorld\<lparr>mailFaults := mf\<rparr>)) = Inr r"
    by blast
  have zero: "(0::int) \<noteq> - 1" by simp
  have sid: "tallySheetId sampleCustomer \<noteq> []" by (simp add: sampleCustomer_sheet)
  from duplicate_run [OF sampleWorld_logs(2) sampleWorld_resolve sid
      sampleWorld_findIndex zero sampleWorld_token [folded sampleCustomer_sheet]]
  obtain r' w2' where
    run': "processInboundDoc sampleEnv sampleArgs sampleWorld = (Inr r', w2')"
    and nd: "\<not> didIncrement (resTally r')"
    by blast
  from run run' have "r' = r" by simp
  with nd gate have "\<not> didIncrement (resTally r)" "mails w2 = mails sampleWorld" by simp_all
  with run any [of "[True]"] show ?thesis by blast
qed

text \<open>
  Claim C3. When the tenant is resolved and its billing status, trimmed and lower-cased,
  is one of \<open>trial_ended\<close>, \<open>past_due\<close>, \<open>canceled\<close>, \<open>unpaid\<close>, \<^verbatim>\<open>processInboundDoc\<close> returns a
  blocked result carrying that status as reason, whatever the document is: scoring and
  tally are both skipped as \<open>billing_block\<close>, no scorer call is made, no cell is
  written, the sheets are unchanged, no email is sent, and one audit record is written,
  with the same reason and document type.
\<close>

theorem billing_block_stops_pipeline:
  assumes res: "resolveCustomer (toEmailOf args) w = (Some m, w1)"
    and st: "toLowerCase (safeStr (status m))
             \<in> {''trial_ended'', ''past_due'', ''canceled'', ''unpaid''}"
  shows "\<exists>r w2. processInboundDoc env args w = (Inr r, w2)
        \<and> resBlocked r \<and> resBlockedReason r = Some (toLowerCase (safeStr (status m)))
        \<and> resAi r = aiSkip ''billing_block'' \<and> resTally r = TallySkipped ''billing_block''
        \<and> aiCalls w2 = aiCalls w \<and> writes w2 = writes w \<and> sheets w2 = sheets w
        \<and> mails w2 = mails w
        \<and> (\<exists>rec. audits w2 = audits w @ [rec]
              \<and> auditBlockedReason rec = Some (toLowerCase (safeStr (status m)))
              \<and> auditDocType rec = resDocType r)"
proof -
  from extracted_text_total obtain raw where
    x: "(case argExtractedText args of
            Some t \<Rightarrow> Inr t
          | None \<Rightarrow> extractTextFromBuffer (libs env) (argFilename args) (argBuffer args))
         = Inr raw" by blast
  note b = blocked_resolved [OF res st]
  from resolveCustomer_frame [OF res] obtain mf where w1: "w1 = w\<lparr>masterFaults := mf\<rparr>"
    by blast
  define dt where "dt = docTypeOf args (extractedTextOf env raw)"
  define rec where "rec = auditOf args (extractedTextOf env raw) dt (Some m) (aiSkip ''billing_block'')"
  define r where "r = resultOf args (extractedTextOf env raw) dt (Some m)
                        (aiSkip ''billing_block'') (TallySkipped ''billing_block'')"
  have a: "aiScoring env (argBuffer args) (extractedTextOf env raw) (extractedTooLargeOf env raw)
       (docTypeOf args (extractedTextOf env raw)) (sheetIdOf (Some m)) (customerIdOf (Some m))
       (blockedOf (Some m)) (getCustomerRubric (customerIdOf (Some m)) w1) w1
       = (aiSkip ''billing_block'', w1)"
    using b(1) by (simp add: aiScoring_def)
  have t: "tallyStep env (argBuffer args) (argSource args) (r2KeyOf args)
       (docTypeOf args (extractedTextOf env raw)) (sheetIdOf (Some m)) (customerIdOf (Some m))
       (blockedOf (Some m)) (aiSkip ''billing_block'') w1 = (TallySkipped ''billing_block'', w1)"
    using b(1) by (simp add: tallyStep_def Let_def)
  have e: "resultEmail (toEmailOf args) (Some m \<noteq> None) (blockedOf (Some m)) dt
             (aiSkip ''billing_block'') (TallySkipped ''billing_block'')
             (saveInboundDocToDb rec w1) = saveInboundDocToDb rec w1"
    by (simp add: resultEmail_def didIncrement_def)
  from processInboundDoc_phases [OF x res a t, folded dt_def, folded rec_def r_def]
  have run: "processInboundDoc env args w = (Inr r, saveInboundDocToDb rec w1)"
    unfolding e .
  have logs: "aiCalls (saveInboundDocToDb rec w1) = aiCalls w"
    "writes (saveInboundDocToDb rec w1) = writes w"
    "sheets (saveInboundDocToDb rec w1) = sheets w"
    "mails (saveInboundDocToDb rec w1) = mails w"
    "audits (saveInboundDocToDb rec w1) = audits w @ [rec]"
    by (simp_all add: saveInboundDocToDb_keeps w1)
  have rr: "resBlocked r" "resBlockedReason r = Some (toLowerCase (safeStr (status m)))"
    "resAi r = aiSkip ''billing_block''" "resTally r = TallySkipped ''billing_block''"
    "auditBlockedReason rec = Some (toLowerCase (safeStr (status m)))"
    "auditDocType rec = resDocType r"
    using b by (simp_all add: r_def rec_def resultOf_def auditOf_def)
  from run logs rr show ?thesis by blast
qed

theorem billing_block_stops_pipeline_witness:
  "resolveCustomer (toEmailOf sampleArgs) pastDueWorld = (Some pastDueRecord, pastDueWorld)
   \<and> toLowerCase (safeStr (status pastDueRecord)) = ''past_due''
   \<and> (\<exists>r w2. processInboundDoc sampleEnv sampleArgs pastDueWorld = (Inr r, w2)
        \<and> resBlocked r \<and> resBlockedReason r = Some ''past_due''
        \<and> aiCalls w2 = aiCalls pastDueWorld \<and> writes w2 = writes pastDueWorld
        \<and> mails w2 = mails pastDueWorld
        \<and> (\<exists>rec. audits w2 = audits pastDueWorld @ [rec]))"
proof -
  have st: "toLowerCase (safeStr (status pastDueRecord))
             \<in> {''trial_ended'', ''past_due'', ''canceled'', ''unpaid''}"
    unfolding pastDue_status by simp
  from billing_block_stops_pipeline [OF pastDue_resolve st, where env = sampleEnv]
  obtain r w2 where "processInboundDoc sampleEnv sampleArgs pastDueWorld = (Inr r, w2)"
    "resBlocked r" "resBlockedReason r = Some (toLowerCase (safeStr (status pastDueRecord)))"
    "aiCalls w2 = aiCalls pastDueWorld" "writes w2 = writes pastDueWorld"
    "mails w2 = mails pastDueWorld" "\<exists>rec. audits w2 = audits pastDueWorld @ [rec]"
    by blast
  then have "\<exists>r w2. processInboundDoc sampleEnv sampleArgs pastDueWorld = (Inr r, w2)
        \<and> resBlocked r \<and> resBlockedReason r = Some ''past_due''
        \<and> aiCalls w2 = aiCalls pastDueWorld \<and> writes w2 = writes pastDueWorld
        \<and> mails w2 = mails pastDueWorld
        \<and> (\<exists>rec. audits w2 = audits pastDueWorld @ [rec])"
    unfolding pastDue_status by blast
  with pastDue_resolve pastDue_status show ?thesis by blast
qed

end
